theory Spec2Isabelle
  imports Complex_Main
begin

section \<open>Values, errors and dictionaries\<close>

text \<open>
  The analyzer computes with Python floats. A float is modelled as either the
  not-a-number value or a finite value, and the finite values are idealised as
  real numbers: rounding, overflow and the infinities are outside the model.
  The only operations the source applies to values that may be not-a-number
  are \<open>np.isnan\<close>, which is a case distinction on the value, and the
  comparison \<open><\<close>, which is false when either side is not-a-number.
\<close>

datatype pyfloat = NaN | Fin real

fun fl_less :: "pyfloat \<Rightarrow> pyfloat \<Rightarrow> bool" where
  "fl_less (Fin a) (Fin b) = (a < b)"
| "fl_less _ _ = False"

text \<open>
  The exceptions the modelled functions can raise: a missing dictionary key,
  a Python float division by zero, numpy's \<open>ValueError\<close> for a reduction of
  an empty array, its \<open>IndexError\<close> for a percentile of an empty array, and
  its \<open>LinAlgError\<close> for a singular matrix.
\<close>

datatype error = KeyError string | ZeroDivisionError | ValueError | IndexError | LinAlgError

definition bindE :: "error + 'a \<Rightarrow> ('a \<Rightarrow> error + 'b) \<Rightarrow> error + 'b" where
  "bindE m f = (case m of Inl e \<Rightarrow> Inl e | Inr v \<Rightarrow> f v)"

text \<open>
  A Python dict is an association list in insertion order; its keys are
  distinct. \<open>d[k]\<close> raises \<open>KeyError\<close> on a missing key, \<open>d.pop(k)\<close> removes
  the key and returns its value, \<open>d[k] = v\<close> overwrites in place or appends.
\<close>

type_synonym 'v dict = "(string \<times> 'v) list"

definition keys :: "'v dict \<Rightarrow> string list" where
  "keys d = map fst d"

definition dict_get :: "'v dict \<Rightarrow> string \<Rightarrow> error + 'v" where
  "dict_get d k = (case map_of d k of None \<Rightarrow> Inl (KeyError k) | Some v \<Rightarrow> Inr v)"

definition dict_pop :: "'v dict \<Rightarrow> string \<Rightarrow> error + ('v \<times> 'v dict)" where
  "dict_pop d k =
     (case map_of d k of
        None \<Rightarrow> Inl (KeyError k)
      | Some v \<Rightarrow> Inr (v, filter (\<lambda>p. fst p \<noteq> k) d))"

fun dict_set :: "'v dict \<Rightarrow> string \<Rightarrow> 'v \<Rightarrow> 'v dict" where
  "dict_set [] k v = [(k, v)]"
| "dict_set (p # ps) k v = (if fst p = k then (k, v) # ps else p # dict_set ps k v)"

definition py_truediv :: "real \<Rightarrow> real \<Rightarrow> error + real" where
  "py_truediv a b = (if b = 0 then Inl ZeroDivisionError else Inr (a / b))"

section \<open>The crop solver\<close>

text \<open>
  \<open>np.linalg.solve\<close> on a 2x2 system is LAPACK's factorisation with partial
  pivoting: the row whose first entry is larger in absolute value (the first
  row on a tie) is the pivot row, the other row is eliminated with it, and
  \<open>LinAlgError\<close> is raised when a pivot is exactly zero. The model runs this
  elimination in exact arithmetic. In double precision the second pivot of a
  singular system is exactly zero only when the elimination itself is exact,
  as it is for the desired margins 1/2 and 1/2; for other desired margins that
  add up to one the code may return a meaningless result where the exact
  elimination raises, and nothing below is stated about those.
\<close>

definition eliminate ::
  "real \<times> real \<Rightarrow> real \<times> real \<Rightarrow> real \<Rightarrow> real \<Rightarrow> error + (real \<times> real)" where
  "eliminate pivot_row other_row bp bq =
     (case pivot_row of (p0, p1) \<Rightarrow>
      case other_row of (q0, q1) \<Rightarrow>
        if p0 = 0 then Inl LinAlgError
        else let l = q0 / p0; u = q1 - l * p1
             in if u = 0 then Inl LinAlgError
                else let x1 = (bq - l * bp) / u
                     in Inr ((bp - p1 * x1) / p0, x1))"

definition np_linalg_solve ::
  "(real \<times> real) \<times> (real \<times> real) \<Rightarrow> real \<times> real \<Rightarrow> error + (real \<times> real)" where
  "np_linalg_solve A B =
     (case A of (row0, row1) \<Rightarrow>
      case B of (b0, b1) \<Rightarrow>
        if \<bar>fst row0\<bar> < \<bar>fst row1\<bar> then eliminate row1 row0 b1 b0
        else eliminate row0 row1 b0 b1)"

text \<open>
  The inner function \<open>solve_margin_to_cut\<close> of \<open>calculate_margins_to_cut\<close>,
  with the two dictionaries it closes over as arguments. The margins are read
  before the desired margins, the first key before the second.
\<close>

definition solve_margin_to_cut ::
  "real dict \<Rightarrow> real dict \<Rightarrow> string \<times> string \<Rightarrow> error + (real \<times> real)" where
  "solve_margin_to_cut margins desired_margins margin_keys =
     bindE (dict_get margins (fst margin_keys)) (\<lambda>m0.
     bindE (dict_get margins (snd margin_keys)) (\<lambda>m1.
     bindE (dict_get desired_margins (fst margin_keys)) (\<lambda>d0.
     bindE (dict_get desired_margins (snd margin_keys)) (\<lambda>d1.
       np_linalg_solve ((d0 - 1, d0), (d1, d1 - 1)) (d0 - m0, d1 - m1)))))"

definition width_keys :: "real dict \<Rightarrow> string \<times> string" where
  "width_keys margins =
     (if ''left'' \<in> set (keys margins) then (''left'', ''right'') else (''inner'', ''outer''))"

definition height_keys :: "string \<times> string" where
  "height_keys = (''top'', ''bottom'')"

definition calculate_margins_to_cut :: "real dict \<Rightarrow> real dict \<Rightarrow> error + real dict" where
  "calculate_margins_to_cut margins desired_margins =
     bindE (solve_margin_to_cut margins desired_margins (width_keys margins)) (\<lambda>x_width.
     bindE (solve_margin_to_cut margins desired_margins height_keys) (\<lambda>x_height.
       Inr [(fst (width_keys margins), fst x_width),
            (snd (width_keys margins), snd x_width),
            (''top'', fst x_height),
            (''bottom'', snd x_height)]))"

text \<open>
  The determinant of the coefficient matrix of one axis, and the margin that is
  left on one side of an axis after cropping \<open>c\<close> from that side and \<open>c'\<close> from
  the other, as a fraction of the cropped page. A page cropped to no extent has
  no margin fraction.
\<close>

definition axis_det :: "real \<Rightarrow> real \<Rightarrow> real" where
  "axis_det d0 d1 = (d0 - 1) * (d1 - 1) - d0 * d1"

definition post_crop_margin :: "real \<Rightarrow> real \<Rightarrow> real \<Rightarrow> real option" where
  "post_crop_margin m c c' = (if 1 - c - c' = 0 then None else Some ((m - c) / (1 - c - c')))"

section \<open>Bounding boxes and margin records\<close>

text \<open>
  A page as the analyzer reads it: the width and height of its rectangle and
  the rectangles \<open>(x0, y0, x1, y1)\<close> of its text blocks, all finite.
\<close>

type_synonym block = "real \<times> real \<times> real \<times> real"

record page =
  rect_width :: real
  rect_height :: real
  text_blocks :: "block list"

definition block0 :: "block \<Rightarrow> real" where "block0 b = fst b"
definition block1 :: "block \<Rightarrow> real" where "block1 b = fst (snd b)"
definition block2 :: "block \<Rightarrow> real" where "block2 b = fst (snd (snd b))"
definition block3 :: "block \<Rightarrow> real" where "block3 b = snd (snd (snd b))"

text \<open>
  Python's \<open>min\<close> and \<open>max\<close> over a sequence keep the first item and replace
  it by each later item that is smaller (larger); on an empty sequence they
  raise \<open>ValueError\<close>.
\<close>

fun py_min :: "real list \<Rightarrow> error + real" where
  "py_min [] = Inl ValueError"
| "py_min (x # xs) = Inr (fold (\<lambda>item cur. if item < cur then item else cur) xs x)"

fun py_max :: "real list \<Rightarrow> error + real" where
  "py_max [] = Inl ValueError"
| "py_max (x # xs) = Inr (fold (\<lambda>item cur. if item > cur then item else cur) xs x)"

text \<open>
  \<open>get_bounding_box\<close>. The source writes the not-a-number float as \<open>np.NaN\<close>,
  the name it has in NumPy 1.x, for which the source is written. The four
  divisions are Python float divisions, evaluated in the order of the
  dictionary literal.
\<close>

definition get_bounding_box :: "page \<Rightarrow> error + pyfloat dict" where
  "get_bounding_box p =
     (if text_blocks p = [] then
        Inr [(''left'', NaN), (''top'', NaN), (''right'', NaN), (''bottom'', NaN)]
      else
        bindE (py_min (map block0 (text_blocks p))) (\<lambda>x0.
        bindE (py_min (map block1 (text_blocks p))) (\<lambda>y0.
        bindE (py_max (map block2 (text_blocks p))) (\<lambda>x1.
        bindE (py_max (map block3 (text_blocks p))) (\<lambda>y1.
        bindE (py_truediv x0 (rect_width p)) (\<lambda>l.
        bindE (py_truediv y0 (rect_height p)) (\<lambda>t.
        bindE (py_truediv (rect_width p - x1) (rect_width p)) (\<lambda>r.
        bindE (py_truediv (rect_height p - y1) (rect_height p)) (\<lambda>b.
          Inr [(''left'', Fin l), (''top'', Fin t), (''right'', Fin r), (''bottom'', Fin b)])))))))))"

text \<open>
  The renaming of \<open>calculate_margins\<close> for the page at 0-based index \<open>i\<close>:
  \<open>bbox["inner"] = bbox.pop(...)\<close>, then \<open>bbox["outer"] = bbox.pop(...)\<close>.
\<close>

definition rename_keys :: "pyfloat dict \<Rightarrow> string \<Rightarrow> string \<Rightarrow> error + pyfloat dict" where
  "rename_keys bbox to_inner to_outer =
     bindE (dict_pop bbox to_inner) (\<lambda>(vi, bbox1).
     bindE (dict_pop (dict_set bbox1 ''inner'' vi) to_outer) (\<lambda>(vo, bbox2).
       Inr (dict_set bbox2 ''outer'' vo)))"

definition page_margins :: "nat \<Rightarrow> page \<Rightarrow> bool \<Rightarrow> error + pyfloat dict" where
  "page_margins i p inner_outer =
     bindE (get_bounding_box p) (\<lambda>bbox.
       if inner_outer then
         (if (i + 1) mod 2 = 0 then rename_keys bbox ''left'' ''right''
          else rename_keys bbox ''right'' ''left'')
       else Inr bbox)"

text \<open>
  The loop of \<open>calculate_margins\<close> over \<open>enumerate(pages)\<close>, from index \<open>i\<close>
  on, with the list \<open>margins\<close> built so far.
\<close>

fun calculate_margins_loop ::
  "nat \<Rightarrow> page list \<Rightarrow> int list \<Rightarrow> bool \<Rightarrow> pyfloat dict list \<Rightarrow> error + pyfloat dict list" where
  "calculate_margins_loop i [] exception_list inner_outer margins = Inr margins"
| "calculate_margins_loop i (p # ps) exception_list inner_outer margins =
     (if int i \<in> set exception_list then
        calculate_margins_loop (Suc i) ps exception_list inner_outer margins
      else
        bindE (page_margins i p inner_outer) (\<lambda>bbox.
          calculate_margins_loop (Suc i) ps exception_list inner_outer (margins @ [bbox])))"

definition calculate_margins :: "page list \<Rightarrow> int list \<Rightarrow> bool \<Rightarrow> error + pyfloat dict list" where
  "calculate_margins pages exception_list inner_outer =
     calculate_margins_loop 0 pages exception_list inner_outer []"

text \<open>The indices of the pages that are not excluded, in document order.\<close>

definition retained :: "nat \<Rightarrow> int list \<Rightarrow> nat list" where
  "retained n exception_list = filter (\<lambda>j. int j \<notin> set exception_list) [0..<n]"

section \<open>Statistics\<close>

text \<open>
  The numpy reductions on a list of finite values. \<open>np.min\<close> and \<open>np.max\<close>
  raise \<open>ValueError\<close> on an empty array and \<open>np.percentile\<close> raises
  \<open>IndexError\<close> there; \<open>np.mean\<close>, \<open>np.median\<close> and \<open>np.std\<close> return
  not-a-number. The percentile uses numpy's default linear interpolation
  between the two sorted values next to the position \<open>(n - 1) * q / 100\<close>,
  for \<open>0 \<le> q \<le> 100\<close>; the standard deviation is the population one. In
  \<open>statistics_margins\<close> only \<open>np.min\<close> ever sees an empty list, because it is
  evaluated first.
\<close>

fun np_min :: "real list \<Rightarrow> error + real" where
  "np_min [] = Inl ValueError"
| "np_min (x # xs) = Inr (fold min xs x)"

fun np_max :: "real list \<Rightarrow> error + real" where
  "np_max [] = Inl ValueError"
| "np_max (x # xs) = Inr (fold max xs x)"

definition np_mean :: "real list \<Rightarrow> pyfloat" where
  "np_mean data = (if data = [] then NaN else Fin (sum_list data / real (length data)))"

definition np_median :: "real list \<Rightarrow> pyfloat" where
  "np_median data =
     (if data = [] then NaN
      else let a = sort data; n = length a
           in if odd n then Fin (a ! (n div 2))
              else Fin ((a ! (n div 2 - 1) + a ! (n div 2)) / 2))"

definition lerp_index :: "real list \<Rightarrow> real \<Rightarrow> real" where
  "lerp_index a h =
     (let lo = nat \<lfloor>h\<rfloor>; hi = min (lo + 1) (length a - 1)
      in a ! lo + (a ! hi - a ! lo) * (h - real lo))"

definition percentile_linear :: "real list \<Rightarrow> real \<Rightarrow> real" where
  "percentile_linear data q = lerp_index (sort data) (real (length data - 1) * (q / 100))"

definition np_percentile :: "real list \<Rightarrow> real \<Rightarrow> error + real" where
  "np_percentile data q =
     (if data = [] then Inl IndexError else Inr (percentile_linear data q))"

definition np_std :: "real list \<Rightarrow> pyfloat" where
  "np_std data =
     (if data = [] then NaN
      else let m = sum_list data / real (length data)
           in Fin (sqrt (sum_list (map (\<lambda>x. (x - m)\<^sup>2) data) / real (length data))))"

definition calculate_iqr :: "real list \<Rightarrow> error + real" where
  "calculate_iqr data =
     bindE (np_percentile data 75) (\<lambda>q75.
     bindE (np_percentile data 25) (\<lambda>q25.
       Inr (q75 - q25)))"

record stats =
  stat_min :: pyfloat
  stat_max :: pyfloat
  stat_mean :: pyfloat
  stat_median :: pyfloat
  stat_iqr :: pyfloat
  stat_stddev :: pyfloat

text \<open>
  \<open>[margin[key] for margin in margins if not np.isnan(margin[key])]\<close>: the
  finite values of a key, in record order; a record without the key raises.
\<close>

fun collect_data :: "string \<Rightarrow> pyfloat dict list \<Rightarrow> error + real list" where
  "collect_data key [] = Inr []"
| "collect_data key (margin # margins) =
     bindE (dict_get margin key) (\<lambda>v.
     bindE (collect_data key margins) (\<lambda>rest.
       Inr (case v of NaN \<Rightarrow> rest | Fin x \<Rightarrow> x # rest)))"

definition key_statistics :: "real list \<Rightarrow> error + stats" where
  "key_statistics data =
     bindE (np_min data) (\<lambda>mn.
     bindE (np_max data) (\<lambda>mx.
     bindE (calculate_iqr data) (\<lambda>iqr.
       Inr \<lparr>stat_min = Fin mn, stat_max = Fin mx, stat_mean = np_mean data,
            stat_median = np_median data, stat_iqr = Fin iqr,
            stat_stddev = np_std data\<rparr>)))"

fun statistics_loop ::
  "string list \<Rightarrow> pyfloat dict list \<Rightarrow> stats dict \<Rightarrow> error + stats dict" where
  "statistics_loop [] margins statistics = Inr statistics"
| "statistics_loop (key # ks) margins statistics =
     bindE (collect_data key margins) (\<lambda>data.
     bindE (key_statistics data) (\<lambda>st.
       statistics_loop ks margins (dict_set statistics key st)))"

definition statistics_margins :: "pyfloat dict list \<Rightarrow> error + stats dict option" where
  "statistics_margins margins =
     (case margins of
        [] \<Rightarrow> Inr None
      | first # _ \<Rightarrow> bindE (statistics_loop (keys first) margins []) (\<lambda>st. Inr (Some st)))"

text \<open>The finite values of a key across the records that have it.\<close>

definition finite_values :: "string \<Rightarrow> pyfloat dict list \<Rightarrow> real list" where
  "finite_values key margins =
     concat (map (\<lambda>m. case map_of m key of Some (Fin x) \<Rightarrow> [x] | _ \<Rightarrow> []) margins)"

text \<open>
  What the statistics of a non-empty list of finite values are: least and
  greatest value, arithmetic mean, median, interquartile range and population
  standard deviation.
\<close>

definition summary :: "real list \<Rightarrow> stats" where
  "summary data =
     \<lparr>stat_min = Fin (Min (set data)), stat_max = Fin (Max (set data)),
      stat_mean = Fin (sum_list data / real (length data)),
      stat_median = np_median data,
      stat_iqr = Fin (percentile_linear data 75 - percentile_linear data 25),
      stat_stddev =
        Fin (sqrt (sum_list (map (\<lambda>x. (x - sum_list data / real (length data))\<^sup>2) data)
                   / real (length data)))\<rparr>"

section \<open>Threshold evaluation\<close>

text \<open>
  The inner loop of \<open>get_bad_cuts_with_margin\<close> over the keys of one record
  with index \<open>i\<close>, and the outer loop over \<open>enumerate(margins)\<close>.
\<close>

fun bad_cuts_keys ::
  "nat \<Rightarrow> pyfloat dict \<Rightarrow> string list \<Rightarrow> pyfloat dict \<Rightarrow> nat list dict \<Rightarrow> error + nat list dict" where
  "bad_cuts_keys i margin [] margin_threshold bad_cuts = Inr bad_cuts"
| "bad_cuts_keys i margin (key # ks) margin_threshold bad_cuts =
     bindE (dict_get margin key) (\<lambda>v.
     bindE (dict_get margin_threshold key) (\<lambda>t.
       if fl_less v t then
         bindE (dict_get bad_cuts key) (\<lambda>l.
           bad_cuts_keys i margin ks margin_threshold (dict_set bad_cuts key (l @ [i])))
       else bad_cuts_keys i margin ks margin_threshold bad_cuts))"

fun bad_cuts_loop ::
  "nat \<Rightarrow> pyfloat dict list \<Rightarrow> pyfloat dict \<Rightarrow> nat list dict \<Rightarrow> error + nat list dict" where
  "bad_cuts_loop i [] margin_threshold bad_cuts = Inr bad_cuts"
| "bad_cuts_loop i (margin # margins) margin_threshold bad_cuts =
     bindE (bad_cuts_keys i margin (keys margin) margin_threshold bad_cuts) (\<lambda>bad_cuts'.
       bad_cuts_loop (Suc i) margins margin_threshold bad_cuts')"

definition get_bad_cuts_with_margin ::
  "pyfloat dict list \<Rightarrow> pyfloat dict \<Rightarrow> error + nat list dict" where
  "get_bad_cuts_with_margin margins margin_threshold =
     bad_cuts_loop 0 margins margin_threshold (map (\<lambda>key. (key, [])) (keys margin_threshold))"

text \<open>
  A record is below the threshold for a key when it has the key, the threshold
  mapping has it, and the record's value is strictly less.
\<close>

definition below :: "pyfloat dict \<Rightarrow> pyfloat dict \<Rightarrow> string \<Rightarrow> bool" where
  "below margin_threshold margin key =
     (case map_of margin key of
        None \<Rightarrow> False
      | Some v \<Rightarrow> (case map_of margin_threshold key of None \<Rightarrow> False | Some t \<Rightarrow> fl_less v t))"

section \<open>The solver's contract\<close>

lemma bindE_Inr [simp]: "bindE (Inr v) f = f v"
  by (simp add: bindE_def)

lemma bindE_Inl [simp]: "bindE (Inl e) f = Inl e"
  by (simp add: bindE_def)

lemma dict_get_Some: "map_of d k = Some v \<Longrightarrow> dict_get d k = Inr v"
  by (simp add: dict_get_def)

lemma axis_det_eq: "axis_det d0 d1 = 1 - d0 - d1"
  by (simp add: axis_det_def algebra_simps)

lemma eliminate_solution:
  assumes p: "p0 \<noteq> 0" and d: "p0 * q1 - p1 * q0 \<noteq> 0"
  shows "\<exists>x0 x1. eliminate (p0, p1) (q0, q1) bp bq = Inr (x0, x1)
           \<and> p0 * x0 + p1 * x1 = bp \<and> q0 * x0 + q1 * x1 = bq"
proof -
  define l where "l = q0 / p0"
  define u where "u = q1 - l * p1"
  define x1 where "x1 = (bq - l * bp) / u"
  define x0 where "x0 = (bp - p1 * x1) / p0"
  have lp: "l * p0 = q0" using p by (simp add: l_def)
  have "u * p0 = p0 * q1 - p1 * (l * p0)" by (simp add: u_def algebra_simps)
  then have "u * p0 = p0 * q1 - p1 * q0" by (simp only: lp)
  with d have u: "u \<noteq> 0" by auto
  have "eliminate (p0, p1) (q0, q1) bp bq =
      (if u = 0 then Inl LinAlgError
       else Inr ((bp - p1 * ((bq - l * bp) / u)) / p0, (bq - l * bp) / u))"
    using p by (simp add: eliminate_def Let_def l_def u_def)
  with u have r: "eliminate (p0, p1) (q0, q1) bp bq = Inr (x0, x1)"
    by (simp add: x0_def x1_def)
  have ux: "u * x1 = bq - l * bp" using u by (simp add: x1_def)
  have px: "p0 * x0 = bp - p1 * x1" using p by (simp add: x0_def)
  then have e0: "p0 * x0 + p1 * x1 = bp" by simp
  have "q0 * x0 = l * (p0 * x0)" using lp by (simp add: algebra_simps)
  then have "q0 * x0 + q1 * x1 = l * bp + u * x1"
    by (simp add: px u_def algebra_simps)
  then have e1: "q0 * x0 + q1 * x1 = bq" by (simp add: ux)
  from r e0 e1 show ?thesis by blast
qed

lemma np_linalg_solve_solution:
  assumes "a00 * a11 - a01 * a10 \<noteq> 0"
  shows "\<exists>x0 x1. np_linalg_solve ((a00, a01), (a10, a11)) (b0, b1) = Inr (x0, x1)
           \<and> a00 * x0 + a01 * x1 = b0 \<and> a10 * x0 + a11 * x1 = b1"
proof (cases "\<bar>a00\<bar> < \<bar>a10\<bar>")
  case True
  then have p: "a10 \<noteq> 0" by auto
  have d: "a10 * a01 - a11 * a00 \<noteq> 0" using assms by (simp add: algebra_simps)
  from eliminate_solution [OF p d, of b1 b0] obtain x0 x1 where
    "eliminate (a10, a11) (a00, a01) b1 b0 = Inr (x0, x1)"
    "a10 * x0 + a11 * x1 = b1" "a00 * x0 + a01 * x1 = b0" by blast
  with True show ?thesis by (simp add: np_linalg_solve_def)
next
  case False
  have p: "a00 \<noteq> 0"
  proof
    assume z: "a00 = 0"
    with False have "a10 = 0" by simp
    with z assms show False by simp
  qed
  have d: "a00 * a11 - a01 * a10 \<noteq> 0" using assms .
  from eliminate_solution [OF p d, of b0 b1] obtain x0 x1 where
    "eliminate (a00, a01) (a10, a11) b0 b1 = Inr (x0, x1)"
    "a00 * x0 + a01 * x1 = b0" "a10 * x0 + a11 * x1 = b1" by blast
  with False show ?thesis by (simp add: np_linalg_solve_def)
qed

lemma solve_margin_to_cut_half:
  assumes "map_of margins k0 = Some m0" "map_of margins k1 = Some m1"
    and "map_of desired k0 = Some (1 / 2)" "map_of desired k1 = Some (1 / 2)"
  shows "solve_margin_to_cut margins desired (k0, k1) = Inl LinAlgError"
proof -
  have g: "dict_get margins k0 = Inr m0" "dict_get margins k1 = Inr m1"
    "dict_get desired k0 = Inr (1 / 2)" "dict_get desired k1 = Inr (1 / 2)"
    using assms by (simp_all only: dict_get_Some)
  show ?thesis
    by (simp add: solve_margin_to_cut_def g np_linalg_solve_def eliminate_def Let_def)
qed

lemma solve_margin_to_cut_full:
  assumes "map_of margins k0 = Some m0" "map_of margins k1 = Some m1"
    and "map_of desired k0 = Some 1" "map_of desired k1 = Some 1"
  shows "solve_margin_to_cut margins desired (k0, k1) = Inr (1 - m1, 1 - m0)"
proof -
  have g: "dict_get margins k0 = Inr m0" "dict_get margins k1 = Inr m1"
    "dict_get desired k0 = Inr 1" "dict_get desired k1 = Inr 1"
    using assms by (simp_all only: dict_get_Some)
  show ?thesis
    by (simp add: solve_margin_to_cut_def g np_linalg_solve_def eliminate_def Let_def)
qed

lemma solve_margin_to_cut_solution:
  assumes "map_of margins k0 = Some m0" "map_of margins k1 = Some m1"
    and "map_of desired k0 = Some d0" "map_of desired k1 = Some d1"
    and "axis_det d0 d1 \<noteq> 0"
  shows "\<exists>c0 c1. solve_margin_to_cut margins desired (k0, k1) = Inr (c0, c1)
           \<and> (d0 - 1) * c0 + d0 * c1 = d0 - m0 \<and> d1 * c0 + (d1 - 1) * c1 = d1 - m1"
proof -
  have "(d0 - 1) * (d1 - 1) - d0 * d1 \<noteq> 0"
    using assms(5) by (simp add: axis_det_def)
  from np_linalg_solve_solution [OF this, of "d0 - m0" "d1 - m1"]
  show ?thesis
    using assms(1-4) by (simp add: solve_margin_to_cut_def dict_get_Some)
qed

text \<open>
  A solution of the linear system of one axis leaves a cropped page of extent
  \<open>(1 - m0 - m1) / (1 - d0 - d1)\<close>; when that is not zero, the margins after
  the crop are the desired ones.
\<close>

lemma axis_system_post_crop:
  assumes s0: "(d0 - 1) * c0 + d0 * c1 = d0 - m0"
    and s1: "d1 * c0 + (d1 - 1) * c1 = d1 - m1"
    and det: "axis_det d0 d1 \<noteq> 0"
    and ext: "m0 + m1 \<noteq> 1"
  shows "post_crop_margin m0 c0 c1 = Some d0 \<and> post_crop_margin m1 c1 c0 = Some d1"
proof -
  define r where "r = 1 - c0 - c1"
  have n0: "m0 - c0 = d0 * r"
    using s0 by (simp add: r_def algebra_simps)
  have n1: "m1 - c1 = d1 * r"
    using s1 by (simp add: r_def algebra_simps)
  have "(1 - d0 - d1) * r = 1 - m0 - m1"
    using n0 n1 by (simp add: r_def algebra_simps)
  with ext have rz: "r \<noteq> 0" by auto
  have r': "1 - c1 - c0 = r" by (simp add: r_def)
  show ?thesis
    using rz n0 n1 r' by (simp add: post_crop_margin_def r_def [symmetric])
qed

lemma axis_system_zero:
  assumes s0: "(d0 - 1) * c0 + d0 * c1 = 0"
    and s1: "d1 * c0 + (d1 - 1) * c1 = 0"
    and det: "axis_det d0 d1 \<noteq> 0"
  shows "c0 = 0 \<and> c1 = 0"
proof -
  have "(1 - d0 - d1) * (c0 + c1) = 0 - ((d0 - 1) * c0 + d0 * c1) - (d1 * c0 + (d1 - 1) * c1)"
    by (simp add: algebra_simps)
  with s0 s1 have "(1 - d0 - d1) * (c0 + c1) = 0" by simp
  with det have sum: "c0 + c1 = 0" by (simp add: axis_det_eq)
  have "c0 = d0 * (c0 + c1) - ((d0 - 1) * c0 + d0 * c1)" by (simp add: algebra_simps)
  with s0 sum have c0: "c0 = 0" by simp
  with sum show ?thesis by simp
qed


section \<open>Claims about the crop solver\<close>

text \<open>
  C1 (as amended). For a margin snapshot and a desired-margin mapping over the
  same keys (the width pair the snapshot uses, and top and bottom), whose
  coefficient matrix is non-singular on each axis and whose observed margins
  on each axis do not add up to the whole page, \<open>calculate_margins_to_cut\<close>
  returns crop fractions such that cropping a page with exactly the observed
  margins leaves exactly the desired margins on all four sides:
  \<open>(m0 - c0) / (1 - c0 - c1) = d0\<close> and \<open>(m1 - c1) / (1 - c0 - c1) = d1\<close>.
\<close>

theorem margins_to_cut_reproduces_desired:
  assumes m: "map_of margins (fst (width_keys margins)) = Some m0"
      "map_of margins (snd (width_keys margins)) = Some m1"
      "map_of margins ''top'' = Some mt" "map_of margins ''bottom'' = Some mb"
    and d: "map_of desired (fst (width_keys margins)) = Some d0"
      "map_of desired (snd (width_keys margins)) = Some d1"
      "map_of desired ''top'' = Some dt" "map_of desired ''bottom'' = Some db"
    and det: "axis_det d0 d1 \<noteq> 0" "axis_det dt db \<noteq> 0"
    and ext: "m0 + m1 \<noteq> 1" "mt + mb \<noteq> 1"
  shows "\<exists>c0 c1 ct cb.
      calculate_margins_to_cut margins desired =
        Inr [(fst (width_keys margins), c0), (snd (width_keys margins), c1),
             (''top'', ct), (''bottom'', cb)]
      \<and> post_crop_margin m0 c0 c1 = Some d0 \<and> post_crop_margin m1 c1 c0 = Some d1
      \<and> post_crop_margin mt ct cb = Some dt \<and> post_crop_margin mb cb ct = Some db"
proof -
  obtain c0 c1 where w:
    "solve_margin_to_cut margins desired (width_keys margins) = Inr (c0, c1)"
    "(d0 - 1) * c0 + d0 * c1 = d0 - m0" "d1 * c0 + (d1 - 1) * c1 = d1 - m1"
    using solve_margin_to_cut_solution [OF m(1,2) d(1,2) det(1)] by auto
  obtain ct cb where h:
    "solve_margin_to_cut margins desired height_keys = Inr (ct, cb)"
    "(dt - 1) * ct + dt * cb = dt - mt" "db * ct + (db - 1) * cb = db - mb"
    using solve_margin_to_cut_solution [OF m(3,4) d(3,4) det(2)]
    by (auto simp: height_keys_def)
  have r: "calculate_margins_to_cut margins desired =
        Inr [(fst (width_keys margins), c0), (snd (width_keys margins), c1),
             (''top'', ct), (''bottom'', cb)]"
    by (simp add: calculate_margins_to_cut_def w(1) h(1))
  from r axis_system_post_crop [OF w(2,3) det(1) ext(1)]
    axis_system_post_crop [OF h(2,3) det(2) ext(2)]
  show ?thesis by blast
qed

theorem margins_to_cut_reproduces_desired_witness:
  "\<exists>c0 c1 ct cb.
      calculate_margins_to_cut
        [(''left'', 5 / 100), (''right'', 5 / 100), (''top'', 12 / 100), (''bottom'', 12 / 100)]
        [(''left'', 10 / 100), (''right'', 10 / 100), (''top'', 10 / 100), (''bottom'', 10 / 100)]
        = Inr [(''left'', c0), (''right'', c1), (''top'', ct), (''bottom'', cb)]
      \<and> post_crop_margin (5 / 100) c0 c1 = Some (10 / 100)
      \<and> post_crop_margin (5 / 100) c1 c0 = Some (10 / 100)
      \<and> post_crop_margin (12 / 100) ct cb = Some (10 / 100)
      \<and> post_crop_margin (12 / 100) cb ct = Some (10 / 100)"
  using margins_to_cut_reproduces_desired
    [of "[(''left'', 5 / 100), (''right'', 5 / 100), (''top'', 12 / 100), (''bottom'', 12 / 100)]"
        "5 / 100" "5 / 100" "12 / 100" "12 / 100"
        "[(''left'', 10 / 100), (''right'', 10 / 100), (''top'', 10 / 100), (''bottom'', 10 / 100)]"
        "10 / 100" "10 / 100" "10 / 100" "10 / 100"]
  by (simp add: width_keys_def keys_def axis_det_def)

text \<open>
  Without the condition on the observed margins the property fails: for
  observed margins of one half on the left and on the right and a desired
  margin of one tenth, the matrix is non-singular, the solver returns a crop
  of one half from each side, and the cropped page has no width left.
\<close>

theorem zero_extent_snapshot_counterexample:
  "calculate_margins_to_cut
     [(''left'', 1 / 2), (''right'', 1 / 2), (''top'', 1 / 10), (''bottom'', 1 / 10)]
     [(''left'', 1 / 10), (''right'', 1 / 10), (''top'', 1 / 10), (''bottom'', 1 / 10)]
     = Inr [(''left'', 1 / 2), (''right'', 1 / 2), (''top'', 0), (''bottom'', 0)]
   \<and> axis_det (1 / 10) (1 / 10) \<noteq> 0
   \<and> post_crop_margin (1 / 2) (1 / 2) (1 / 2) \<noteq> Some (1 / 10)"
  by (simp add: calculate_margins_to_cut_def solve_margin_to_cut_def width_keys_def keys_def
      height_keys_def dict_get_def np_linalg_solve_def eliminate_def Let_def axis_det_def
      post_crop_margin_def)

text \<open>
  C2 (as amended). The source has no error of its own for a singular system:
  it hands each axis to \<open>np.linalg.solve\<close>. For the singular pair of desired
  margins 1/2 and 1/2 on an axis \<open>calculate_margins_to_cut\<close> fails with the
  \<open>LinAlgError\<close> of the library, which carries neither the axis nor the
  desired margins. For the pair 1 and 1 the system is not singular (its
  determinant is \<open>-1\<close>) and the call returns, for that axis, the crops
  \<open>c0 = 1 - m1\<close> and \<open>c1 = 1 - m0\<close>. The width axis is solved first.
\<close>

theorem half_target_raises_full_target_returns:
  assumes m: "map_of margins (fst (width_keys margins)) = Some m0"
      "map_of margins (snd (width_keys margins)) = Some m1"
      "map_of margins ''top'' = Some mt" "map_of margins ''bottom'' = Some mb"
    and d: "map_of desired (fst (width_keys margins)) = Some d0"
      "map_of desired (snd (width_keys margins)) = Some d1"
      "map_of desired ''top'' = Some dt" "map_of desired ''bottom'' = Some db"
  shows "(d0 = 1 / 2 \<and> d1 = 1 / 2 \<longrightarrow>
            calculate_margins_to_cut margins desired = Inl LinAlgError)
      \<and> (axis_det d0 d1 \<noteq> 0 \<and> dt = 1 / 2 \<and> db = 1 / 2 \<longrightarrow>
            calculate_margins_to_cut margins desired = Inl LinAlgError)
      \<and> (d0 = 1 \<and> d1 = 1 \<and> axis_det dt db \<noteq> 0 \<longrightarrow>
            (\<exists>ct cb. calculate_margins_to_cut margins desired =
               Inr [(fst (width_keys margins), 1 - m1), (snd (width_keys margins), 1 - m0),
                    (''top'', ct), (''bottom'', cb)]))
      \<and> (axis_det d0 d1 \<noteq> 0 \<and> dt = 1 \<and> db = 1 \<longrightarrow>
            (\<exists>c0 c1. calculate_margins_to_cut margins desired =
               Inr [(fst (width_keys margins), c0), (snd (width_keys margins), c1),
                    (''top'', 1 - mb), (''bottom'', 1 - mt)]))
      \<and> axis_det (1 / 2) (1 / 2) = 0 \<and> axis_det 1 1 = - 1"
proof (intro conjI impI)
  assume "d0 = 1 / 2 \<and> d1 = 1 / 2"
  with d have "solve_margin_to_cut margins desired (width_keys margins) = Inl LinAlgError"
    using solve_margin_to_cut_half [OF m(1,2), of desired] by simp
  then show "calculate_margins_to_cut margins desired = Inl LinAlgError"
    by (simp add: calculate_margins_to_cut_def)
next
  assume a: "axis_det d0 d1 \<noteq> 0 \<and> dt = 1 / 2 \<and> db = 1 / 2"
  then obtain c0 c1 where
    w: "solve_margin_to_cut margins desired (width_keys margins) = Inr (c0, c1)"
    using solve_margin_to_cut_solution [OF m(1,2) d(1,2)] by auto
  from a d have "solve_margin_to_cut margins desired height_keys = Inl LinAlgError"
    using solve_margin_to_cut_half [OF m(3,4), of desired] by (simp add: height_keys_def)
  with w show "calculate_margins_to_cut margins desired = Inl LinAlgError"
    by (simp add: calculate_margins_to_cut_def)
next
  assume a: "d0 = 1 \<and> d1 = 1 \<and> axis_det dt db \<noteq> 0"
  with d have w: "solve_margin_to_cut margins desired (width_keys margins) = Inr (1 - m1, 1 - m0)"
    using solve_margin_to_cut_full [OF m(1,2), of desired] by simp
  from a obtain ct cb where
    h: "solve_margin_to_cut margins desired height_keys = Inr (ct, cb)"
    using solve_margin_to_cut_solution [OF m(3,4) d(3,4)] by (auto simp: height_keys_def)
  from w h show "\<exists>ct cb. calculate_margins_to_cut margins desired =
               Inr [(fst (width_keys margins), 1 - m1), (snd (width_keys margins), 1 - m0),
                    (''top'', ct), (''bottom'', cb)]"
    by (simp add: calculate_margins_to_cut_def)
next
  assume a: "axis_det d0 d1 \<noteq> 0 \<and> dt = 1 \<and> db = 1"
  then obtain c0 c1 where
    w: "solve_margin_to_cut margins desired (width_keys margins) = Inr (c0, c1)"
    using solve_margin_to_cut_solution [OF m(1,2) d(1,2)] by auto
  from a d have h: "solve_margin_to_cut margins desired height_keys = Inr (1 - mb, 1 - mt)"
    using solve_margin_to_cut_full [OF m(3,4), of desired] by (simp add: height_keys_def)
  from w h show "\<exists>c0 c1. calculate_margins_to_cut margins desired =
               Inr [(fst (width_keys margins), c0), (snd (width_keys margins), c1),
                    (''top'', 1 - mb), (''bottom'', 1 - mt)]"
    by (simp add: calculate_margins_to_cut_def)
next
  show "axis_det (1 / 2) (1 / 2) = 0" by (simp add: axis_det_def)
next
  show "axis_det 1 1 = - 1" by (simp add: axis_det_def)
qed

theorem half_target_raises_full_target_returns_witness:
  "calculate_margins_to_cut
     [(''left'', 1 / 10), (''right'', 1 / 10), (''top'', 12 / 100), (''bottom'', 12 / 100)]
     [(''left'', 1 / 2), (''right'', 1 / 2), (''top'', 1 / 10), (''bottom'', 1 / 10)]
     = Inl LinAlgError
   \<and> calculate_margins_to_cut
     [(''left'', 5 / 100), (''right'', 1 / 10), (''top'', 12 / 100), (''bottom'', 2 / 10)]
     [(''left'', 1), (''right'', 1), (''top'', 1), (''bottom'', 1)]
     = Inr [(''left'', 9 / 10), (''right'', 95 / 100), (''top'', 8 / 10), (''bottom'', 88 / 100)]"
proof -
  have a: "calculate_margins_to_cut
     [(''left'', 1 / 10), (''right'', 1 / 10), (''top'', 12 / 100), (''bottom'', 12 / 100)]
     [(''left'', 1 / 2), (''right'', 1 / 2), (''top'', 1 / 10), (''bottom'', 1 / 10)]
     = Inl LinAlgError"
    using half_target_raises_full_target_returns
      [of "[(''left'', 1 / 10), (''right'', 1 / 10), (''top'', 12 / 100), (''bottom'', 12 / 100)]"
        "1 / 10" "1 / 10" "12 / 100" "12 / 100"
        "[(''left'', 1 / 2), (''right'', 1 / 2), (''top'', 1 / 10), (''bottom'', 1 / 10)]"
        "1 / 2" "1 / 2" "1 / 10" "1 / 10"]
    by (simp add: width_keys_def keys_def)
  have b: "calculate_margins_to_cut
     [(''left'', 5 / 100), (''right'', 1 / 10), (''top'', 12 / 100), (''bottom'', 2 / 10)]
     [(''left'', 1), (''right'', 1), (''top'', 1), (''bottom'', 1)]
     = Inr [(''left'', 9 / 10), (''right'', 95 / 100), (''top'', 8 / 10), (''bottom'', 88 / 100)]"
    using half_target_raises_full_target_returns
      [of "[(''left'', 5 / 100), (''right'', 1 / 10), (''top'', 12 / 100), (''bottom'', 2 / 10)]"
        "5 / 100" "1 / 10" "12 / 100" "2 / 10"
        "[(''left'', 1), (''right'', 1), (''top'', 1), (''bottom'', 1)]"
        "1" "1" "1" "1"]
    by (auto simp add: width_keys_def keys_def axis_det_def)
  from a b show ?thesis by simp
qed

text \<open>
  A desired margin of one on both sides of an axis is not singular: the
  determinant is \<open>-1\<close> and a result is returned.
\<close>

theorem full_target_not_singular_counterexample:
  "axis_det 1 1 = - 1
   \<and> calculate_margins_to_cut
     [(''left'', 5 / 100), (''right'', 5 / 100), (''top'', 1 / 10), (''bottom'', 1 / 10)]
     [(''left'', 1), (''right'', 1), (''top'', 1), (''bottom'', 1)]
     = Inr [(''left'', 95 / 100), (''right'', 95 / 100), (''top'', 9 / 10), (''bottom'', 9 / 10)]"
  by (simp add: calculate_margins_to_cut_def solve_margin_to_cut_def width_keys_def keys_def
      height_keys_def dict_get_def np_linalg_solve_def eliminate_def Let_def axis_det_def)

text \<open>
  C3. When the desired margins equal the observed margins and the system of
  each axis is non-singular, all four crop fractions are exactly zero; in
  particular for the margins left = right = 0.10, top = bottom = 0.12.
\<close>

theorem same_margins_cut_nothing:
  assumes m: "map_of margins (fst (width_keys margins)) = Some m0"
      "map_of margins (snd (width_keys margins)) = Some m1"
      "map_of margins ''top'' = Some mt" "map_of margins ''bottom'' = Some mb"
    and d: "map_of desired (fst (width_keys margins)) = Some m0"
      "map_of desired (snd (width_keys margins)) = Some m1"
      "map_of desired ''top'' = Some mt" "map_of desired ''bottom'' = Some mb"
    and det: "axis_det m0 m1 \<noteq> 0" "axis_det mt mb \<noteq> 0"
  shows "calculate_margins_to_cut margins desired =
        Inr [(fst (width_keys margins), 0), (snd (width_keys margins), 0),
             (''top'', 0), (''bottom'', 0)]"
proof -
  obtain c0 c1 where w:
    "solve_margin_to_cut margins desired (width_keys margins) = Inr (c0, c1)"
    "(m0 - 1) * c0 + m0 * c1 = m0 - m0" "m1 * c0 + (m1 - 1) * c1 = m1 - m1"
    using solve_margin_to_cut_solution [OF m(1,2) d(1,2) det(1)] by auto
  obtain ct cb where h:
    "solve_margin_to_cut margins desired height_keys = Inr (ct, cb)"
    "(mt - 1) * ct + mt * cb = mt - mt" "mb * ct + (mb - 1) * cb = mb - mb"
    using solve_margin_to_cut_solution [OF m(3,4) d(3,4) det(2)]
    by (auto simp: height_keys_def)
  have w0: "(m0 - 1) * c0 + m0 * c1 = 0" "m1 * c0 + (m1 - 1) * c1 = 0"
    using w(2,3) by simp_all
  have h0: "(mt - 1) * ct + mt * cb = 0" "mb * ct + (mb - 1) * cb = 0"
    using h(2,3) by simp_all
  have "c0 = 0 \<and> c1 = 0"
    by (rule axis_system_zero [OF w0 det(1)])
  moreover have "ct = 0 \<and> cb = 0"
    by (rule axis_system_zero [OF h0 det(2)])
  ultimately show ?thesis
    by (simp add: calculate_margins_to_cut_def w(1) h(1))
qed

theorem same_margins_cut_nothing_witness:
  "calculate_margins_to_cut
     [(''left'', 10 / 100), (''right'', 10 / 100), (''top'', 12 / 100), (''bottom'', 12 / 100)]
     [(''left'', 10 / 100), (''right'', 10 / 100), (''top'', 12 / 100), (''bottom'', 12 / 100)]
     = Inr [(''left'', 0), (''right'', 0), (''top'', 0), (''bottom'', 0)]"
  using same_margins_cut_nothing
    [of "[(''left'', 10 / 100), (''right'', 10 / 100), (''top'', 12 / 100), (''bottom'', 12 / 100)]"
        "10 / 100" "10 / 100" "12 / 100" "12 / 100"
        "[(''left'', 10 / 100), (''right'', 10 / 100), (''top'', 12 / 100), (''bottom'', 12 / 100)]"]
  by (simp add: width_keys_def keys_def axis_det_def)


section \<open>Bounding boxes\<close>

lemma py_min_Min: "xs \<noteq> [] \<Longrightarrow> py_min xs = Inr (Min (set xs))"
proof (cases xs)
  case Nil
  then show "xs \<noteq> [] \<Longrightarrow> ?thesis" by simp
next
  case (Cons x ys)
  have f: "(\<lambda>item cur. if item < cur then item else cur) = (min :: real \<Rightarrow> real \<Rightarrow> real)"
    by (auto simp: fun_eq_iff min_def)
  show ?thesis
    by (simp add: Cons f Min.set_eq_fold [symmetric])
qed

lemma py_max_Max: "xs \<noteq> [] \<Longrightarrow> py_max xs = Inr (Max (set xs))"
proof (cases xs)
  case Nil
  then show "xs \<noteq> [] \<Longrightarrow> ?thesis" by simp
next
  case (Cons x ys)
  have f: "(\<lambda>item cur. if item > cur then item else cur) = (max :: real \<Rightarrow> real \<Rightarrow> real)"
    by (auto simp: fun_eq_iff max_def)
  show ?thesis
    by (simp add: Cons f Max.set_eq_fold [symmetric])
qed

lemma get_bounding_box_empty:
  "text_blocks p = [] \<Longrightarrow>
   get_bounding_box p = Inr [(''left'', NaN), (''top'', NaN), (''right'', NaN), (''bottom'', NaN)]"
  by (simp add: get_bounding_box_def)

lemma get_bounding_box_content:
  assumes "text_blocks p \<noteq> []" "rect_width p \<noteq> 0" "rect_height p \<noteq> 0"
  shows "get_bounding_box p =
     Inr [(''left'', Fin (Min (block0 ` set (text_blocks p)) / rect_width p)),
          (''top'', Fin (Min (block1 ` set (text_blocks p)) / rect_height p)),
          (''right'', Fin ((rect_width p - Max (block2 ` set (text_blocks p))) / rect_width p)),
          (''bottom'', Fin ((rect_height p - Max (block3 ` set (text_blocks p))) / rect_height p))]"
  using assms
  by (simp add: get_bounding_box_def py_min_Min py_max_Max py_truediv_def)

lemma get_bounding_box_zero:
  assumes "text_blocks p \<noteq> []" "rect_width p = 0 \<or> rect_height p = 0"
  shows "get_bounding_box p = Inl ZeroDivisionError"
  using assms
  by (auto simp add: get_bounding_box_def py_min_Min py_max_Max py_truediv_def)

lemma get_bounding_box_shape:
  assumes "get_bounding_box p = Inr bbox"
  shows "\<exists>l t r b. bbox = [(''left'', l), (''top'', t), (''right'', r), (''bottom'', b)]"
proof (cases "text_blocks p = []")
  case True
  with assms show ?thesis by (auto simp: get_bounding_box_empty)
next
  case False
  show ?thesis
  proof (cases "rect_width p = 0 \<or> rect_height p = 0")
    case True
    with False assms show ?thesis by (simp add: get_bounding_box_zero)
  next
    case False
    with \<open>text_blocks p \<noteq> []\<close> assms show ?thesis
      using get_bounding_box_content [of p] by auto
  qed
qed

text \<open>
  C5. For a page without text blocks \<open>get_bounding_box\<close> returns not-a-number
  in all four fields. For a page with text blocks it returns
  left = min(x0) / width, top = min(y0) / height,
  right = (width - max(x1)) / width and bottom = (height - max(y1)) / height,
  whatever the geometry of the blocks. The divisions are those of a page
  rectangle with non-zero width and height, as the rectangle of a page of an
  opened document is taken to be; the unguarded division by a width or height
  of zero would raise \<open>ZeroDivisionError\<close>, which the model keeps as a branch.
\<close>

theorem get_bounding_box_fields:
  "(text_blocks p = [] \<longrightarrow>
      get_bounding_box p =
        Inr [(''left'', NaN), (''top'', NaN), (''right'', NaN), (''bottom'', NaN)])
   \<and> (text_blocks p \<noteq> [] \<and> rect_width p \<noteq> 0 \<and> rect_height p \<noteq> 0 \<longrightarrow>
      get_bounding_box p =
        Inr [(''left'', Fin (Min (block0 ` set (text_blocks p)) / rect_width p)),
             (''top'', Fin (Min (block1 ` set (text_blocks p)) / rect_height p)),
             (''right'',
                Fin ((rect_width p - Max (block2 ` set (text_blocks p))) / rect_width p)),
             (''bottom'',
                Fin ((rect_height p - Max (block3 ` set (text_blocks p))) / rect_height p))])
   \<and> (text_blocks p \<noteq> [] \<and> (rect_width p = 0 \<or> rect_height p = 0) \<longrightarrow>
      get_bounding_box p = Inl ZeroDivisionError)"
  using get_bounding_box_empty get_bounding_box_content get_bounding_box_zero by blast

theorem get_bounding_box_fields_witness:
  "get_bounding_box \<lparr>rect_width = 200, rect_height = 100,
       text_blocks = [(20, 10, 120, 40), (30, 5, 180, 90)]\<rparr>
     = Inr [(''left'', Fin (1 / 10)), (''top'', Fin (1 / 20)),
            (''right'', Fin (1 / 10)), (''bottom'', Fin (1 / 10))]
   \<and> get_bounding_box \<lparr>rect_width = 200, rect_height = 100, text_blocks = []\<rparr>
     = Inr [(''left'', NaN), (''top'', NaN), (''right'', NaN), (''bottom'', NaN)]
   \<and> get_bounding_box \<lparr>rect_width = 200, rect_height = 0, text_blocks = [(20, 10, 120, 40)]\<rparr>
     = Inl ZeroDivisionError"
  using get_bounding_box_fields
    [of "\<lparr>rect_width = 200, rect_height = 100,
       text_blocks = [(20, 10, 120, 40), (30, 5, 180, 90)]\<rparr>"]
    get_bounding_box_fields [of "\<lparr>rect_width = 200, rect_height = 100, text_blocks = []\<rparr>"]
    get_bounding_box_fields
    [of "\<lparr>rect_width = 200, rect_height = 0, text_blocks = [(20, 10, 120, 40)]\<rparr>"]
  by (simp add: block0_def block1_def block2_def block3_def)

section \<open>Collecting the margins\<close>

lemma rename_keys_left_right:
  "rename_keys [(''left'', l), (''top'', t), (''right'', r), (''bottom'', b)] ''left'' ''right''
   = Inr [(''top'', t), (''bottom'', b), (''inner'', l), (''outer'', r)]"
  by (simp add: rename_keys_def dict_pop_def)

lemma rename_keys_right_left:
  "rename_keys [(''left'', l), (''top'', t), (''right'', r), (''bottom'', b)] ''right'' ''left''
   = Inr [(''top'', t), (''bottom'', b), (''inner'', r), (''outer'', l)]"
  by (simp add: rename_keys_def dict_pop_def)

lemma page_margins_returns:
  assumes "text_blocks p = [] \<or> (rect_width p \<noteq> 0 \<and> rect_height p \<noteq> 0)"
  shows "\<exists>r. page_margins i p io = Inr r"
proof -
  have "\<exists>bbox. get_bounding_box p = Inr bbox"
    using assms get_bounding_box_empty [of p] get_bounding_box_content [of p] by auto
  then obtain bbox where g: "get_bounding_box p = Inr bbox" by blast
  from get_bounding_box_shape [OF g] obtain l t r b where
    "bbox = [(''left'', l), (''top'', t), (''right'', r), (''bottom'', b)]" by blast
  with g show ?thesis
    by (simp add: page_margins_def rename_keys_left_right rename_keys_right_left)
qed

lemma page_margins_inner_outer:
  assumes "page_margins i p True = Inr rec"
  shows "\<exists>l t r b. get_bounding_box p =
            Inr [(''left'', l), (''top'', t), (''right'', r), (''bottom'', b)]
         \<and> rec = [(''top'', t), (''bottom'', b),
                  (''inner'', if even (i + 1) then l else r),
                  (''outer'', if even (i + 1) then r else l)]"
proof -
  obtain bbox where g: "get_bounding_box p = Inr bbox"
    using assms by (cases "get_bounding_box p") (auto simp: page_margins_def)
  from get_bounding_box_shape [OF g] obtain l t r b where
    s: "bbox = [(''left'', l), (''top'', t), (''right'', r), (''bottom'', b)]" by blast
  have "rec = [(''top'', t), (''bottom'', b),
                  (''inner'', if even (i + 1) then l else r),
                  (''outer'', if even (i + 1) then r else l)]"
    using assms g s
    by (auto simp: page_margins_def rename_keys_left_right rename_keys_right_left
        even_iff_mod_2_eq_zero split: if_splits)
  with g s show ?thesis by blast
qed

lemma upt_shift_map:
  "map (\<lambda>j. f j ((p # ps) ! (j - i))) (filter P [Suc i..<Suc i + length ps])
   = map (\<lambda>j. f j (ps ! (j - Suc i))) (filter P [Suc i..<Suc i + length ps])"
proof (rule map_cong)
  fix j assume "j \<in> set (filter P [Suc i..<Suc i + length ps])"
  then have "j \<in> set [Suc i..<Suc i + length ps]" by (simp del: upt_Suc)
  then have "Suc i \<le> j" by (simp del: upt_Suc)
  then have "j - i = Suc (j - Suc i)" by simp
  then show "f j ((p # ps) ! (j - i)) = f j (ps ! (j - Suc i))" by simp
qed simp

lemma calculate_margins_loop_result:
  "calculate_margins_loop i ps exc io acc = Inr out \<Longrightarrow>
   \<exists>rs. out = acc @ rs
      \<and> map Inr rs = map (\<lambda>j. page_margins j (ps ! (j - i)) io)
                        (filter (\<lambda>j. int j \<notin> set exc) [i..<i + length ps])"
proof (induction ps arbitrary: i acc)
  case Nil
  then show ?case by simp
next
  case (Cons p ps)
  have upt: "[i..<i + length (p # ps)] = i # [Suc i..<Suc i + length ps]"
    by (simp add: upt_conv_Cons del: upt_Suc)
  show ?case
  proof (cases "int i \<in> set exc")
    case True
    with Cons.prems have "calculate_margins_loop (Suc i) ps exc io acc = Inr out" by simp
    from Cons.IH [OF this] obtain rs where rs: "out = acc @ rs"
      "map Inr rs = map (\<lambda>j. page_margins j (ps ! (j - Suc i)) io)
                        (filter (\<lambda>j. int j \<notin> set exc) [Suc i..<Suc i + length ps])"
      by blast
    show ?thesis
      unfolding upt using True rs by (simp add: upt_shift_map del: upt_Suc)
  next
    case False
    with Cons.prems obtain bbox where b: "page_margins i p io = Inr bbox"
      and l: "calculate_margins_loop (Suc i) ps exc io (acc @ [bbox]) = Inr out"
      by (cases "page_margins i p io") auto
    from Cons.IH [OF l] obtain rs where rs: "out = (acc @ [bbox]) @ rs"
      "map Inr rs = map (\<lambda>j. page_margins j (ps ! (j - Suc i)) io)
                        (filter (\<lambda>j. int j \<notin> set exc) [Suc i..<Suc i + length ps])"
      by blast
    have "out = acc @ (bbox # rs)" using rs(1) by simp
    moreover have "map Inr (bbox # rs) = map (\<lambda>j. page_margins j ((p # ps) ! (j - i)) io)
                        (filter (\<lambda>j. int j \<notin> set exc) [i..<i + length (p # ps)])"
      unfolding upt using False rs(2) b by (simp add: upt_shift_map del: upt_Suc)
    ultimately show ?thesis by blast
  qed
qed

lemma calculate_margins_loop_returns:
  "(\<forall>k < length ps. int (i + k) \<notin> set exc \<longrightarrow> (\<exists>r. page_margins (i + k) (ps ! k) io = Inr r))
   \<Longrightarrow> \<exists>out. calculate_margins_loop i ps exc io acc = Inr out"
proof (induction ps arbitrary: i acc)
  case Nil
  then show ?case by simp
next
  case (Cons p ps)
  have rest: "\<forall>k < length ps. int (Suc i + k) \<notin> set exc \<longrightarrow>
                 (\<exists>r. page_margins (Suc i + k) (ps ! k) io = Inr r)"
  proof (intro allI impI)
    fix k assume k: "k < length ps" and e: "int (Suc i + k) \<notin> set exc"
    from Cons.prems have "Suc k < length (p # ps) \<longrightarrow> int (i + Suc k) \<notin> set exc \<longrightarrow>
        (\<exists>r. page_margins (i + Suc k) ((p # ps) ! Suc k) io = Inr r)" by blast
    with k e show "\<exists>r. page_margins (Suc i + k) (ps ! k) io = Inr r" by simp
  qed
  show ?case
  proof (cases "int i \<in> set exc")
    case True
    then show ?thesis using Cons.IH [OF rest] by simp
  next
    case False
    from Cons.prems have "0 < length (p # ps) \<longrightarrow> int (i + 0) \<notin> set exc \<longrightarrow>
        (\<exists>r. page_margins (i + 0) ((p # ps) ! 0) io = Inr r)" by blast
    with False obtain r where "page_margins i p io = Inr r" by auto
    then show ?thesis using False Cons.IH [OF rest] by simp
  qed
qed

lemma calculate_margins_loop_exc_cong:
  "(\<forall>k < length ps. (int (i + k) \<in> set exc) = (int (i + k) \<in> set exc'))
   \<Longrightarrow> calculate_margins_loop i ps exc io acc = calculate_margins_loop i ps exc' io acc"
proof (induction ps arbitrary: i acc)
  case Nil
  then show ?case by simp
next
  case (Cons p ps)
  have rest: "\<forall>k < length ps. (int (Suc i + k) \<in> set exc) = (int (Suc i + k) \<in> set exc')"
  proof (intro allI impI)
    fix k assume "k < length ps"
    with Cons.prems have "(int (i + Suc k) \<in> set exc) = (int (i + Suc k) \<in> set exc')"
      by (metis Suc_less_eq length_Cons)
    then show "(int (Suc i + k) \<in> set exc) = (int (Suc i + k) \<in> set exc')" by simp
  qed
  from Cons.prems have here: "(int i \<in> set exc) = (int i \<in> set exc')"
    by (metis add.right_neutral length_Cons zero_less_Suc)
  show ?case
    using here Cons.IH [OF rest] by simp
qed

lemma length_retained:
  "length (retained n exc) = n - card {j. j < n \<and> int j \<in> set exc}"
proof -
  have "{x. int x \<notin> set exc} \<inter> set [0..<n] = {j. j < n \<and> int j \<notin> set exc}"
    by auto
  then have "length (retained n exc) = card {j. j < n \<and> int j \<notin> set exc}"
    by (simp add: retained_def distinct_length_filter)
  moreover have "{j. j < n \<and> int j \<notin> set exc} = {..<n} - {j. j < n \<and> int j \<in> set exc}"
    by auto
  moreover have "card ({..<n} - {j. j < n \<and> int j \<in> set exc})
      = card {..<n} - card {j. j < n \<and> int j \<in> set exc}"
    by (rule card_Diff_subset) auto
  ultimately show ?thesis by simp
qed

lemma retained_nth:
  assumes "i < n" "int i \<notin> set exc"
  shows "length (retained i exc) < length (retained n exc)
       \<and> retained n exc ! length (retained i exc) = i"
proof -
  have "[0..<n] = [0..<i] @ i # [Suc i..<n]"
    using assms(1) by (metis less_imp_add_positive upt_add_eq_append upt_conv_Cons zero_le
        le_add1 less_add_same_cancel1)
  then have "retained n exc = retained i exc @ i # filter (\<lambda>j. int j \<notin> set exc) [Suc i..<n]"
    using assms(2) by (simp add: retained_def)
  then show ?thesis by (simp add: nth_append)
qed

text \<open>
  C6. \<open>calculate_margins\<close> returns exactly one record per page that is not
  excluded, in document order, each computed from the page and its own index;
  the number of records is the number of pages minus the number of excluded
  indices that are page indices; and exclusion entries that are not page
  indices have no effect. The pages are those of an opened document: a page
  that is not excluded has no text blocks or has a rectangle with non-zero
  width and height.
\<close>

theorem calculate_margins_one_record_per_retained_page:
  assumes ok: "\<forall>j \<in> set (retained (length pages) exc).
      text_blocks (pages ! j) = [] \<or> (rect_width (pages ! j) \<noteq> 0 \<and> rect_height (pages ! j) \<noteq> 0)"
  shows "\<exists>rs. calculate_margins pages exc io = Inr rs
      \<and> map Inr rs = map (\<lambda>j. page_margins j (pages ! j) io) (retained (length pages) exc)
      \<and> length rs = length pages - card {j. j < length pages \<and> int j \<in> set exc}
      \<and> calculate_margins pages
           (filter (\<lambda>e. 0 \<le> e \<and> e < int (length pages)) exc) io = Inr rs"
proof -
  have "\<forall>k < length pages. int (0 + k) \<notin> set exc \<longrightarrow>
          (\<exists>r. page_margins (0 + k) (pages ! k) io = Inr r)"
  proof (intro allI impI)
    fix k assume "k < length pages" "int (0 + k) \<notin> set exc"
    then have "k \<in> set (retained (length pages) exc)" by (simp add: retained_def)
    with ok have "text_blocks (pages ! k) = []
        \<or> (rect_width (pages ! k) \<noteq> 0 \<and> rect_height (pages ! k) \<noteq> 0)" by blast
    from page_margins_returns [OF this]
    show "\<exists>r. page_margins (0 + k) (pages ! k) io = Inr r" by simp
  qed
  from calculate_margins_loop_returns [OF this] obtain out where
    out: "calculate_margins_loop 0 pages exc io [] = Inr out" by blast
  from calculate_margins_loop_result [OF out]
  have m: "map Inr out = map (\<lambda>j. page_margins j (pages ! j) io) (retained (length pages) exc)"
    by (simp add: retained_def)
  have "length out = length (map Inr out :: (error + pyfloat dict) list)" by simp
  also have "\<dots> = length (retained (length pages) exc)" by (simp only: m length_map)
  finally have len: "length out = length pages - card {j. j < length pages \<and> int j \<in> set exc}"
    by (simp add: length_retained)
  have "calculate_margins_loop 0 pages
          (filter (\<lambda>e. 0 \<le> e \<and> e < int (length pages)) exc) io []
        = calculate_margins_loop 0 pages exc io []"
    by (rule calculate_margins_loop_exc_cong) auto
  with out m len show ?thesis by (simp add: calculate_margins_def)
qed

theorem calculate_margins_one_record_per_retained_page_witness:
  "\<exists>rs. calculate_margins
          [\<lparr>rect_width = 100, rect_height = 100, text_blocks = [(10, 10, 90, 90)]\<rparr>,
           \<lparr>rect_width = 0, rect_height = 0, text_blocks = [(0, 0, 0, 0)]\<rparr>,
           \<lparr>rect_width = 100, rect_height = 100, text_blocks = []\<rparr>] [1, 7, - 2] False = Inr rs
      \<and> length rs = 2"
proof -
  define pages where "pages =
          [\<lparr>rect_width = 100, rect_height = 100, text_blocks = [(10, 10, 90, 90)]\<rparr>,
           \<lparr>rect_width = 0, rect_height = 0, text_blocks = [(0, 0, 0, 0)]\<rparr>,
           \<lparr>rect_width = 100, rect_height = 100, text_blocks = []\<rparr>]"
  have len: "length pages = 3" by (simp add: pages_def)
  have c: "{j. j < (3::nat) \<and> int j \<in> set [1, 7, - 2]} = {1}" by auto
  have r: "retained 3 [1, 7, - 2] = [0, 2]"
    by (simp add: retained_def upt_rec)
  have ok: "\<forall>j \<in> set (retained (length pages) [1, 7, - 2]).
      text_blocks (pages ! j) = [] \<or> (rect_width (pages ! j) \<noteq> 0 \<and> rect_height (pages ! j) \<noteq> 0)"
    by (simp add: len r) (simp add: pages_def)
  from calculate_margins_one_record_per_retained_page [OF ok, of False]
  obtain rs where "calculate_margins pages [1, 7, - 2] False = Inr rs"
    and "length rs = length pages - card {j. j < length pages \<and> int j \<in> set [1, 7, - 2]}"
    by blast
  then have "calculate_margins pages [1, 7, - 2] False = Inr rs \<and> length rs = 2"
    by (simp only: len c) simp
  then show ?thesis unfolding pages_def by blast
qed

text \<open>
  C7. With inner/outer naming, the record of the retained page at 0-based
  document index \<open>i\<close>, which stands at the position given by the number of
  retained pages before it, has inner = left and outer = right when \<open>i + 1\<close>
  is even, and inner = right and outer = left when \<open>i + 1\<close> is odd; top and
  bottom keep their names and values. The parity is that of the document index,
  whichever earlier pages were excluded.
\<close>

theorem inner_outer_by_document_parity:
  assumes ret: "calculate_margins pages exc True = Inr rs"
    and i: "i < length pages" "int i \<notin> set exc"
  shows "\<exists>l t r b.
      get_bounding_box (pages ! i) =
        Inr [(''left'', l), (''top'', t), (''right'', r), (''bottom'', b)]
      \<and> length (retained i exc) < length rs
      \<and> rs ! length (retained i exc) =
          [(''top'', t), (''bottom'', b),
           (''inner'', if even (i + 1) then l else r),
           (''outer'', if even (i + 1) then r else l)]"
proof -
  from ret have "calculate_margins_loop 0 pages exc True [] = Inr rs"
    by (simp add: calculate_margins_def)
  from calculate_margins_loop_result [OF this]
  have m: "map Inr rs = map (\<lambda>j. page_margins j (pages ! j) True) (retained (length pages) exc)"
    by (simp add: retained_def)
  have "length rs = length (map Inr rs :: (error + pyfloat dict) list)" by simp
  also have "\<dots> = length (retained (length pages) exc)" by (simp only: m length_map)
  finally have len: "length rs = length (retained (length pages) exc)" .
  from retained_nth [OF i] have k: "length (retained i exc) < length (retained (length pages) exc)"
    and n: "retained (length pages) exc ! length (retained i exc) = i" by simp_all
  have "(map Inr rs :: (error + pyfloat dict) list) ! length (retained i exc)
      = map (\<lambda>j. page_margins j (pages ! j) True) (retained (length pages) exc)
          ! length (retained i exc)"
    by (simp only: m)
  then have "page_margins i (pages ! i) True = Inr (rs ! length (retained i exc))"
    using k n len by simp
  from page_margins_inner_outer [OF this] k len show ?thesis by auto
qed

theorem inner_outer_by_document_parity_witness:
  "calculate_margins
     [\<lparr>rect_width = 100, rect_height = 100, text_blocks = [(50, 50, 60, 60)]\<rparr>,
      \<lparr>rect_width = 100, rect_height = 100, text_blocks = [(10, 20, 70, 60)]\<rparr>,
      \<lparr>rect_width = 100, rect_height = 100, text_blocks = [(10, 20, 70, 60)]\<rparr>] [0] True
   = Inr [[(''top'', Fin (1 / 5)), (''bottom'', Fin (2 / 5)),
           (''inner'', Fin (1 / 10)), (''outer'', Fin (3 / 10))],
          [(''top'', Fin (1 / 5)), (''bottom'', Fin (2 / 5)),
           (''inner'', Fin (3 / 10)), (''outer'', Fin (1 / 10))]]
   \<and> (\<exists>l t r b.
        get_bounding_box \<lparr>rect_width = 100, rect_height = 100, text_blocks = [(10, 20, 70, 60)]\<rparr>
          = Inr [(''left'', l), (''top'', t), (''right'', r), (''bottom'', b)]
        \<and> [[(''top'', Fin (1 / 5)), (''bottom'', Fin (2 / 5)),
             (''inner'', Fin (1 / 10)), (''outer'', Fin (3 / 10))],
            [(''top'', Fin (1 / 5)), (''bottom'', Fin (2 / 5)),
             (''inner'', Fin (3 / 10)), (''outer'', Fin (1 / 10))]] ! 0
          = [(''top'', t), (''bottom'', b), (''inner'', l), (''outer'', r)])"
proof -
  define pages where "pages =
     [\<lparr>rect_width = 100, rect_height = 100, text_blocks = [(50, 50, 60, 60)]\<rparr>,
      \<lparr>rect_width = 100, rect_height = 100, text_blocks = [(10, 20, 70, 60)]\<rparr>,
      \<lparr>rect_width = 100, rect_height = 100, text_blocks = [(10, 20, 70, 60)]\<rparr>]"
  define rs where "rs =
         [[(''top'', Fin (1 / 5)), (''bottom'', Fin (2 / 5)),
           (''inner'', Fin (1 / 10)), (''outer'', Fin (3 / 10))],
          [(''top'', Fin (1 / 5)), (''bottom'', Fin (2 / 5)),
           (''inner'', Fin (3 / 10)), (''outer'', Fin (1 / 10))]]"
  have ret: "calculate_margins pages [0] True = Inr rs"
    by (simp add: pages_def rs_def calculate_margins_def page_margins_def get_bounding_box_def
        block0_def block1_def block2_def block3_def py_truediv_def rename_keys_def dict_pop_def)
  have i: "Suc 0 < length pages" "int (Suc 0) \<notin> set [0]"
    by (simp_all add: pages_def)
  have k: "length (retained (Suc 0) [0]) = 0"
    by (simp add: retained_def)
  from inner_outer_by_document_parity [OF ret i]
  have "\<exists>l t r b.
        get_bounding_box (pages ! Suc 0)
          = Inr [(''left'', l), (''top'', t), (''right'', r), (''bottom'', b)]
        \<and> rs ! 0 = [(''top'', t), (''bottom'', b), (''inner'', l), (''outer'', r)]"
    by (simp add: k) blast
  moreover have "pages ! Suc 0 =
      \<lparr>rect_width = 100, rect_height = 100, text_blocks = [(10, 20, 70, 60)]\<rparr>"
    by (simp add: pages_def)
  ultimately show ?thesis
    using ret unfolding pages_def rs_def by simp
qed


section \<open>Threshold evaluation: results and errors\<close>

lemma dict_get_in_keys: "k \<in> set (keys d) \<Longrightarrow> \<exists>v. dict_get d k = Inr v \<and> map_of d k = Some v"
proof -
  assume "k \<in> set (keys d)"
  then have "map_of d k \<noteq> None"
    by (simp add: keys_def map_of_eq_None_iff)
  then show ?thesis by (auto simp: dict_get_def)
qed

lemma dict_get_not_in_keys: "k \<notin> set (keys d) \<Longrightarrow> dict_get d k = Inl (KeyError k)"
proof -
  assume "k \<notin> set (keys d)"
  then have "map_of d k = None"
    by (simp add: keys_def map_of_eq_None_iff)
  then show ?thesis by (simp add: dict_get_def)
qed

lemma keys_dict_set: "k \<in> set (keys d) \<Longrightarrow> keys (dict_set d k v) = keys d"
  by (induction d) (auto simp: keys_def)

lemma dict_set_map:
  "distinct (keys d) \<Longrightarrow> map_of d k = Some l \<Longrightarrow>
   dict_set d k (f l) = map (\<lambda>(k', l'). (k', if k' = k then f l' else l')) d"
proof (induction d)
  case Nil
  then show ?case by simp
next
  case (Cons p d)
  obtain k0 l0 where p: "p = (k0, l0)" by (cases p)
  show ?case
  proof (cases "k0 = k")
    case True
    with Cons.prems p have l: "l0 = l" by simp
    from Cons.prems p True have "k \<notin> fst ` set d" by (simp add: keys_def)
    then have "map (\<lambda>(k', l'). (k', if k' = k then f l' else l')) d = d"
      by (intro map_idI) (auto simp: rev_image_eqI)
    with p True l show ?thesis by simp
  next
    case False
    with Cons.prems p have "distinct (keys d)" "map_of d k = Some l"
      by (simp_all add: keys_def)
    from Cons.IH [OF this] p False show ?thesis by simp
  qed
qed

lemma keys_map_snd: "keys (map (\<lambda>(k, l). (k, g k l)) d) = keys d"
  by (induction d) (auto simp: keys_def)

lemma keys_initial: "keys (map (\<lambda>key. (key, [])) ks) = ks"
  by (simp add: keys_def comp_def)

lemma below_in_keys: "below th m k \<Longrightarrow> k \<in> set (keys m) \<and> k \<in> set (keys th)"
proof -
  assume "below th m k"
  then obtain v t where "map_of m k = Some v" "map_of th k = Some t"
    by (auto simp: below_def split: option.splits)
  then have "(k, v) \<in> set m" "(k, t) \<in> set th"
    by (auto dest: map_of_SomeD)
  then show ?thesis
    by (auto simp: keys_def intro: rev_image_eqI)
qed

lemma below_iff:
  "below th m k = (\<exists>v t. map_of m k = Some (Fin v) \<and> map_of th k = Some (Fin t) \<and> v < t)"
proof (cases "map_of m k")
  case None
  then show ?thesis by (simp add: below_def)
next
  case (Some a)
  show ?thesis
  proof (cases "map_of th k")
    case None
    with Some show ?thesis by (simp add: below_def)
  next
    case (Some b)
    with \<open>map_of m k = Some a\<close> show ?thesis
      by (cases a; cases b) (simp_all add: below_def)
  qed
qed

lemma bad_cuts_keys_returns:
  "set ks \<subseteq> set (keys margin) \<Longrightarrow> set ks \<subseteq> set (keys th) \<Longrightarrow> set (keys th) \<subseteq> set (keys bc)
   \<Longrightarrow> \<exists>bc'. bad_cuts_keys i margin ks th bc = Inr bc' \<and> keys bc' = keys bc"
proof (induction ks arbitrary: bc)
  case Nil
  then show ?case by simp
next
  case (Cons key ks)
  from Cons.prems obtain v where v: "dict_get margin key = Inr v"
    using dict_get_in_keys [of key margin] by auto
  from Cons.prems obtain t where t: "dict_get th key = Inr t"
    using dict_get_in_keys [of key th] by auto
  from Cons.prems have kb: "key \<in> set (keys bc)" by auto
  then obtain l where l: "dict_get bc key = Inr l"
    using dict_get_in_keys [of key bc] by auto
  have sub: "set ks \<subseteq> set (keys margin)" "set ks \<subseteq> set (keys th)"
    using Cons.prems by auto
  show ?case
  proof (cases "fl_less v t")
    case True
    have "set (keys th) \<subseteq> set (keys (dict_set bc key (l @ [i])))"
      using Cons.prems(3) kb by (simp add: keys_dict_set)
    from Cons.IH [OF sub this] show ?thesis
      using v t l True kb by (simp add: keys_dict_set)
  next
    case False
    from Cons.IH [OF sub Cons.prems(3)] show ?thesis
      using v t False by simp
  qed
qed

lemma bad_cuts_keys_raises:
  "set ks \<subseteq> set (keys margin) \<Longrightarrow> set (keys th) \<subseteq> set (keys bc)
   \<Longrightarrow> \<not> set ks \<subseteq> set (keys th)
   \<Longrightarrow> \<exists>k'. bad_cuts_keys i margin ks th bc = Inl (KeyError k')
          \<and> k' \<in> set ks \<and> k' \<notin> set (keys th)"
proof (induction ks arbitrary: bc)
  case Nil
  then show ?case by simp
next
  case (Cons key ks)
  from Cons.prems obtain v where v: "dict_get margin key = Inr v"
    using dict_get_in_keys [of key margin] by auto
  have sub: "set ks \<subseteq> set (keys margin)" using Cons.prems by auto
  show ?case
  proof (cases "key \<in> set (keys th)")
    case False
    then show ?thesis using v by (simp add: dict_get_not_in_keys)
  next
    case True
    then obtain t where t: "dict_get th key = Inr t"
      using dict_get_in_keys [of key th] by auto
    from True Cons.prems have kb: "key \<in> set (keys bc)" by auto
    then obtain l where l: "dict_get bc key = Inr l"
      using dict_get_in_keys [of key bc] by auto
    from True Cons.prems have rest: "\<not> set ks \<subseteq> set (keys th)" by auto
    show ?thesis
    proof (cases "fl_less v t")
      case True
      have "set (keys th) \<subseteq> set (keys (dict_set bc key (l @ [i])))"
        using Cons.prems(2) kb by (simp add: keys_dict_set)
      from Cons.IH [OF sub this rest] show ?thesis
        using v t l True by auto
    next
      case False
      from Cons.IH [OF sub Cons.prems(2) rest] show ?thesis
        using v t False by auto
    qed
  qed
qed

lemma bad_cuts_loop_raises:
  "set (keys th) \<subseteq> set (keys bc) \<Longrightarrow> \<exists>m \<in> set ms. \<not> set (keys m) \<subseteq> set (keys th)
   \<Longrightarrow> \<exists>k'. bad_cuts_loop i ms th bc = Inl (KeyError k')
          \<and> k' \<notin> set (keys th) \<and> (\<exists>m \<in> set ms. k' \<in> set (keys m))"
proof (induction ms arbitrary: i bc)
  case Nil
  then show ?case by simp
next
  case (Cons m ms)
  show ?case
  proof (cases "set (keys m) \<subseteq> set (keys th)")
    case True
    from bad_cuts_keys_returns [OF subset_refl True Cons.prems(1)]
    obtain bc' where b: "bad_cuts_keys i m (keys m) th bc = Inr bc'" "keys bc' = keys bc"
      by blast
    from True Cons.prems(2) have "\<exists>m \<in> set ms. \<not> set (keys m) \<subseteq> set (keys th)" by auto
    moreover have "set (keys th) \<subseteq> set (keys bc')" using b(2) Cons.prems(1) by simp
    ultimately obtain k' where "bad_cuts_loop (Suc i) ms th bc' = Inl (KeyError k')"
      "k' \<notin> set (keys th)" "\<exists>m \<in> set ms. k' \<in> set (keys m)"
      using Cons.IH by blast
    then show ?thesis using b(1) by auto
  next
    case False
    from bad_cuts_keys_raises [OF subset_refl Cons.prems(1) False, of i]
    obtain k' where "bad_cuts_keys i m (keys m) th bc = Inl (KeyError k')"
      "k' \<in> set (keys m)" "k' \<notin> set (keys th)" by blast
    then show ?thesis by auto
  qed
qed

lemma bad_cuts_loop_returns:
  "set (keys th) \<subseteq> set (keys bc) \<Longrightarrow> \<forall>m \<in> set ms. set (keys m) \<subseteq> set (keys th)
   \<Longrightarrow> \<exists>bc'. bad_cuts_loop i ms th bc = Inr bc' \<and> keys bc' = keys bc"
proof (induction ms arbitrary: i bc)
  case Nil
  then show ?case by simp
next
  case (Cons m ms)
  from Cons.prems(2) have sub: "set (keys m) \<subseteq> set (keys th)" by simp
  from bad_cuts_keys_returns [OF subset_refl sub Cons.prems(1)]
  obtain bc' where b: "bad_cuts_keys i m (keys m) th bc = Inr bc'" "keys bc' = keys bc"
    by blast
  have "set (keys th) \<subseteq> set (keys bc')" using b(2) Cons.prems(1) by simp
  moreover have "\<forall>m \<in> set ms. set (keys m) \<subseteq> set (keys th)" using Cons.prems(2) by simp
  ultimately obtain bc'' where "bad_cuts_loop (Suc i) ms th bc' = Inr bc''" "keys bc'' = keys bc'"
    using Cons.IH by blast
  then show ?case using b by simp
qed

lemma bad_cuts_keys_result:
  "distinct ks \<Longrightarrow> distinct (keys bc) \<Longrightarrow> set ks \<subseteq> set (keys margin)
   \<Longrightarrow> distinct (keys margin) \<Longrightarrow> set ks \<subseteq> set (keys th)
   \<Longrightarrow> set (keys th) \<subseteq> set (keys bc)
   \<Longrightarrow> bad_cuts_keys i margin ks th bc =
        Inr (map (\<lambda>(k, l). (k, if k \<in> set ks \<and> below th margin k then l @ [i] else l)) bc)"
proof (induction ks arbitrary: bc)
  case Nil
  then show ?case by (simp add: map_idI)
next
  case (Cons key ks)
  from Cons.prems obtain v where v: "dict_get margin key = Inr v" "map_of margin key = Some v"
    using dict_get_in_keys [of key margin] by auto
  from Cons.prems obtain t where t: "dict_get th key = Inr t" "map_of th key = Some t"
    using dict_get_in_keys [of key th] by auto
  from Cons.prems have kb: "key \<in> set (keys bc)" by auto
  then obtain l where l: "dict_get bc key = Inr l" "map_of bc key = Some l"
    using dict_get_in_keys [of key bc] by auto
  have bel: "below th margin key = fl_less v t"
    using v t by (simp add: below_def)
  have d: "distinct ks" "key \<notin> set ks" using Cons.prems(1) by simp_all
  have sub: "set ks \<subseteq> set (keys margin)" "set ks \<subseteq> set (keys th)"
    using Cons.prems by auto
  show ?case
  proof (cases "fl_less v t")
    case True
    define bc1 where "bc1 = map (\<lambda>(k', l'). (k', if k' = key then l' @ [i] else l')) bc"
    have set1: "dict_set bc key (l @ [i]) = bc1"
      unfolding bc1_def using dict_set_map [OF Cons.prems(2) l(2), of "\<lambda>l. l @ [i]"] .
    have k1: "keys bc1 = keys bc"
      unfolding bc1_def by (rule keys_map_snd)
    have "bad_cuts_keys i margin ks th bc1 =
        Inr (map (\<lambda>(k, l). (k, if k \<in> set ks \<and> below th margin k then l @ [i] else l)) bc1)"
      using Cons.IH [of bc1] d(1) Cons.prems(2,4,6) sub k1 by simp
    also have "map (\<lambda>(k, l). (k, if k \<in> set ks \<and> below th margin k then l @ [i] else l)) bc1
        = map (\<lambda>(k, l). (k, if k \<in> set (key # ks) \<and> below th margin k then l @ [i] else l)) bc"
      unfolding bc1_def using d(2) bel True by auto
    finally show ?thesis
      using v t l True set1 by simp
  next
    case False
    have "bad_cuts_keys i margin ks th bc =
        Inr (map (\<lambda>(k, l). (k, if k \<in> set ks \<and> below th margin k then l @ [i] else l)) bc)"
      using Cons.IH [of bc] d(1) Cons.prems(2,4,6) sub by simp
    also have "map (\<lambda>(k, l). (k, if k \<in> set ks \<and> below th margin k then l @ [i] else l)) bc
        = map (\<lambda>(k, l). (k, if k \<in> set (key # ks) \<and> below th margin k then l @ [i] else l)) bc"
      using bel False by auto
    finally show ?thesis
      using v t False by simp
  qed
qed

lemma bad_cuts_record_result:
  assumes "distinct (keys bc)" "distinct (keys margin)" "set (keys margin) \<subseteq> set (keys th)"
    "set (keys th) \<subseteq> set (keys bc)"
  shows "bad_cuts_keys i margin (keys margin) th bc =
        Inr (map (\<lambda>(k, l). (k, if below th margin k then l @ [i] else l)) bc)"
proof -
  have "map (\<lambda>(k, l). (k, if k \<in> set (keys margin) \<and> below th margin k then l @ [i] else l)) bc
      = map (\<lambda>(k, l). (k, if below th margin k then l @ [i] else l)) bc"
    using below_in_keys [of th margin] by auto
  with bad_cuts_keys_result [OF assms(2) assms(1) subset_refl assms(2) assms(3) assms(4), of i]
  show ?thesis by simp
qed

lemma bad_cuts_loop_result:
  "distinct (keys bc) \<Longrightarrow> set (keys th) \<subseteq> set (keys bc)
   \<Longrightarrow> \<forall>m \<in> set ms. distinct (keys m) \<and> set (keys m) \<subseteq> set (keys th)
   \<Longrightarrow> bad_cuts_loop i ms th bc =
        Inr (map (\<lambda>(k, l). (k, l @ filter (\<lambda>j. below th (ms ! (j - i)) k) [i..<i + length ms])) bc)"
proof (induction ms arbitrary: i bc)
  case Nil
  then show ?case by (simp add: map_idI)
next
  case (Cons m ms)
  define bc1 where "bc1 = map (\<lambda>(k, l). (k, if below th m k then l @ [i] else l)) bc"
  have m: "distinct (keys m)" "set (keys m) \<subseteq> set (keys th)"
    using Cons.prems(3) by simp_all
  have step: "bad_cuts_keys i m (keys m) th bc = Inr bc1"
    unfolding bc1_def by (rule bad_cuts_record_result [OF Cons.prems(1) m Cons.prems(2)])
  have k1: "keys bc1 = keys bc"
    unfolding bc1_def by (rule keys_map_snd)
  have rest: "\<forall>m \<in> set ms. distinct (keys m) \<and> set (keys m) \<subseteq> set (keys th)"
    using Cons.prems(3) by simp
  have ih: "bad_cuts_loop (Suc i) ms th bc1 =
        Inr (map (\<lambda>(k, l). (k, l @ filter (\<lambda>j. below th (ms ! (j - Suc i)) k)
                                    [Suc i..<Suc i + length ms])) bc1)"
    using Cons.IH [of bc1 "Suc i"] Cons.prems(1,2) rest k1 by simp
  have upt: "[i..<i + length (m # ms)] = i # [Suc i..<Suc i + length ms]"
    by (simp add: upt_conv_Cons del: upt_Suc)
  have shift: "\<And>k. filter (\<lambda>j. below th ((m # ms) ! (j - i)) k) [Suc i..<Suc i + length ms]
      = filter (\<lambda>j. below th (ms ! (j - Suc i)) k) [Suc i..<Suc i + length ms]"
  proof (rule filter_cong)
    fix k j assume "j \<in> set [Suc i..<Suc i + length ms]"
    then have "Suc i \<le> j" by (simp del: upt_Suc)
    then have "j - i = Suc (j - Suc i)" by simp
    then show "below th ((m # ms) ! (j - i)) k = below th (ms ! (j - Suc i)) k" by simp
  qed simp
  have "map (\<lambda>(k, l). (k, l @ filter (\<lambda>j. below th (ms ! (j - Suc i)) k)
                                    [Suc i..<Suc i + length ms])) bc1
      = map (\<lambda>(k, l). (k, l @ filter (\<lambda>j. below th ((m # ms) ! (j - i)) k)
                                    [i..<i + length (m # ms)])) bc"
    unfolding bc1_def upt using shift by (auto simp del: upt_Suc)
  with ih step show ?case by simp
qed

lemma get_bad_cuts_with_margin_result:
  assumes "distinct (keys th)"
    and "\<forall>m \<in> set ms. distinct (keys m) \<and> set (keys m) \<subseteq> set (keys th)"
  shows "get_bad_cuts_with_margin ms th =
      Inr (map (\<lambda>k. (k, filter (\<lambda>j. below th (ms ! j) k) [0..<length ms])) (keys th))"
proof -
  have "bad_cuts_loop 0 ms th (map (\<lambda>key. (key, [])) (keys th)) =
        Inr (map (\<lambda>(k, l). (k, l @ filter (\<lambda>j. below th (ms ! (j - 0)) k) [0..<0 + length ms]))
               (map (\<lambda>key. (key, [])) (keys th)))"
    by (rule bad_cuts_loop_result) (simp_all add: keys_initial assms)
  then show ?thesis
    by (simp add: get_bad_cuts_with_margin_def comp_def)
qed

text \<open>
  C8 (as amended). For a threshold mapping that has every key of every record
  (dictionaries have distinct keys), \<open>get_bad_cuts_with_margin\<close> returns, for
  each threshold key in the order of the mapping, the ascending list of the
  0-based record indices whose value for that key is strictly below the
  threshold; a record whose value for a key is not-a-number is never listed
  for that key, whatever the threshold.
\<close>

theorem bad_cuts_are_indices_below_threshold:
  assumes "distinct (keys margin_threshold)"
    and "\<forall>m \<in> set margins. distinct (keys m) \<and> set (keys m) \<subseteq> set (keys margin_threshold)"
  shows "\<exists>bad_cuts. get_bad_cuts_with_margin margins margin_threshold = Inr bad_cuts
      \<and> bad_cuts = map (\<lambda>k. (k, filter (\<lambda>j. below margin_threshold (margins ! j) k)
                                    [0..<length margins])) (keys margin_threshold)
      \<and> (\<forall>k l j. (k, l) \<in> set bad_cuts \<longrightarrow>
            (j \<in> set l) =
              (j < length margins \<and>
               (\<exists>v t. map_of (margins ! j) k = Some (Fin v)
                    \<and> map_of margin_threshold k = Some (Fin t) \<and> v < t)))
      \<and> (\<forall>k l j. (k, l) \<in> set bad_cuts \<longrightarrow> map_of (margins ! j) k = Some NaN \<longrightarrow> j \<notin> set l)"
proof -
  define bad_cuts where "bad_cuts =
    map (\<lambda>k. (k, filter (\<lambda>j. below margin_threshold (margins ! j) k) [0..<length margins]))
      (keys margin_threshold)"
  have r: "get_bad_cuts_with_margin margins margin_threshold = Inr bad_cuts"
    unfolding bad_cuts_def by (rule get_bad_cuts_with_margin_result [OF assms])
  have mem: "(j \<in> set l) =
              (j < length margins \<and>
               (\<exists>v t. map_of (margins ! j) k = Some (Fin v)
                    \<and> map_of margin_threshold k = Some (Fin t) \<and> v < t))"
    if "(k, l) \<in> set bad_cuts" for k l j
  proof -
    from that have "l = filter (\<lambda>j. below margin_threshold (margins ! j) k) [0..<length margins]"
      by (auto simp: bad_cuts_def)
    then show ?thesis by (auto simp: below_iff)
  qed
  have nan: "j \<notin> set l" if "(k, l) \<in> set bad_cuts" "map_of (margins ! j) k = Some NaN" for k l j
    using mem [OF that(1), of j] that(2) by simp
  from r mem nan show ?thesis
    unfolding bad_cuts_def [symmetric] by blast
qed

theorem bad_cuts_are_indices_below_threshold_witness:
  "get_bad_cuts_with_margin
     [[(''left'', Fin (5 / 100)), (''top'', NaN)],
      [(''left'', Fin (20 / 100)), (''top'', Fin (1 / 100))],
      [(''left'', Fin (1 / 100)), (''top'', Fin (5 / 100))]]
     [(''left'', Fin (10 / 100)), (''top'', Fin (5 / 100)), (''bottom'', NaN)]
   = Inr [(''left'', [0, 2]), (''top'', [1]), (''bottom'', [])]"
proof -
  define ms where "ms =
     [[(''left'', Fin (5 / 100)), (''top'', NaN)],
      [(''left'', Fin (20 / 100)), (''top'', Fin (1 / 100))],
      [(''left'', Fin (1 / 100)), (''top'', Fin (5 / 100))]]"
  define th where "th = [(''left'', Fin (10 / 100)), (''top'', Fin (5 / 100)), (''bottom'', NaN)]"
  have d: "distinct (keys th)" by (simp add: th_def keys_def)
  have c: "\<forall>m \<in> set ms. distinct (keys m) \<and> set (keys m) \<subseteq> set (keys th)"
    by (simp add: ms_def th_def keys_def)
  have u: "[0..<length ms] = [0, 1, 2]" by (simp add: ms_def upt_rec)
  from bad_cuts_are_indices_below_threshold [OF d c]
  have "get_bad_cuts_with_margin ms th =
      Inr (map (\<lambda>k. (k, filter (\<lambda>j. below th (ms ! j) k) [0..<length ms])) (keys th))"
    by blast
  also have "map (\<lambda>k. (k, filter (\<lambda>j. below th (ms ! j) k) [0..<length ms])) (keys th)
      = [(''left'', [0, 2]), (''top'', [1]), (''bottom'', [])]"
    unfolding u by (simp add: ms_def th_def keys_def below_def)
  finally show ?thesis unfolding ms_def th_def .
qed

text \<open>
  When a record has a key that the threshold mapping lacks, no mapping is
  returned: the lookup of the threshold raises.
\<close>

theorem uncovered_key_counterexample:
  "get_bad_cuts_with_margin
     [[(''left'', Fin (1 / 10)), (''top'', Fin (1 / 10))]] [(''left'', Fin (1 / 5))]
   = Inl (KeyError ''top'')"
  by (simp add: get_bad_cuts_with_margin_def keys_def dict_get_def)

text \<open>
  C10. When some record has a key that is absent from the threshold mapping,
  \<open>get_bad_cuts_with_margin\<close> raises \<open>KeyError\<close> for such a key, whether or
  not the record's value is a number. When the threshold mapping has every
  record key it returns normally, also for records that lack threshold keys:
  only those are skipped.
\<close>

theorem uncovered_record_key_raises_KeyError:
  "((\<exists>m \<in> set margins. \<not> set (keys m) \<subseteq> set (keys margin_threshold)) \<longrightarrow>
      (\<exists>k'. get_bad_cuts_with_margin margins margin_threshold = Inl (KeyError k')
         \<and> k' \<notin> set (keys margin_threshold) \<and> (\<exists>m \<in> set margins. k' \<in> set (keys m))))
   \<and> ((\<forall>m \<in> set margins. set (keys m) \<subseteq> set (keys margin_threshold)) \<longrightarrow>
      (\<exists>bc. get_bad_cuts_with_margin margins margin_threshold = Inr bc
         \<and> keys bc = keys margin_threshold))"
proof (intro conjI impI)
  assume "\<exists>m \<in> set margins. \<not> set (keys m) \<subseteq> set (keys margin_threshold)"
  then show "\<exists>k'. get_bad_cuts_with_margin margins margin_threshold = Inl (KeyError k')
         \<and> k' \<notin> set (keys margin_threshold) \<and> (\<exists>m \<in> set margins. k' \<in> set (keys m))"
    unfolding get_bad_cuts_with_margin_def
    by (intro bad_cuts_loop_raises) (simp_all add: keys_initial)
next
  assume "\<forall>m \<in> set margins. set (keys m) \<subseteq> set (keys margin_threshold)"
  then have "\<exists>bc'. bad_cuts_loop 0 margins margin_threshold
                (map (\<lambda>key. (key, [])) (keys margin_threshold)) = Inr bc'
           \<and> keys bc' = keys (map (\<lambda>key. (key, [])) (keys margin_threshold))"
    using bad_cuts_loop_returns
      [of margin_threshold "map (\<lambda>key. (key, [])) (keys margin_threshold)" margins 0]
    by (simp add: keys_initial)
  then show "\<exists>bc. get_bad_cuts_with_margin margins margin_threshold = Inr bc
         \<and> keys bc = keys margin_threshold"
    by (simp add: get_bad_cuts_with_margin_def keys_initial)
qed

theorem uncovered_record_key_raises_KeyError_witness:
  "(\<exists>k'. get_bad_cuts_with_margin
           [[(''top'', Fin (3 / 10)), (''inner'', Fin (1 / 10))]]
           [(''top'', Fin (1 / 5)), (''left'', Fin (1 / 5))] = Inl (KeyError k')
        \<and> k' \<notin> set (keys [(''top'', Fin (1 / 5)), (''left'', Fin (1 / 5))]))
   \<and> (\<exists>bc. get_bad_cuts_with_margin
           [[(''top'', Fin (3 / 10))]]
           [(''top'', Fin (1 / 5)), (''left'', Fin (1 / 5))] = Inr bc
        \<and> keys bc = [''top'', ''left''])"
proof -
  have a: "\<exists>m \<in> set [[(''top'', Fin (3 / 10)), (''inner'', Fin (1 / 10))]].
      \<not> set (keys m) \<subseteq> set (keys [(''top'', Fin (1 / 5)), (''left'', Fin (1 / 5))])"
    by (simp add: keys_def)
  have b: "\<forall>m \<in> set [[(''top'', Fin (3 / 10))]].
      set (keys m) \<subseteq> set (keys [(''top'', Fin (1 / 5)), (''left'', Fin (1 / 5))])"
    by (simp add: keys_def)
  have k: "keys [(''top'', Fin (1 / 5)), (''left'', Fin (1 / 5))] = [''top'', ''left'']"
    by (simp add: keys_def)
  from uncovered_record_key_raises_KeyError
    [of "[[(''top'', Fin (3 / 10)), (''inner'', Fin (1 / 10))]]"
        "[(''top'', Fin (1 / 5)), (''left'', Fin (1 / 5))]"] a
  have 1: "\<exists>k'. get_bad_cuts_with_margin
           [[(''top'', Fin (3 / 10)), (''inner'', Fin (1 / 10))]]
           [(''top'', Fin (1 / 5)), (''left'', Fin (1 / 5))] = Inl (KeyError k')
        \<and> k' \<notin> set (keys [(''top'', Fin (1 / 5)), (''left'', Fin (1 / 5))])"
    by blast
  from uncovered_record_key_raises_KeyError
    [of "[[(''top'', Fin (3 / 10))]]" "[(''top'', Fin (1 / 5)), (''left'', Fin (1 / 5))]"] b
  have 2: "\<exists>bc. get_bad_cuts_with_margin
           [[(''top'', Fin (3 / 10))]]
           [(''top'', Fin (1 / 5)), (''left'', Fin (1 / 5))] = Inr bc
        \<and> keys bc = [''top'', ''left'']"
    unfolding k by blast
  from 1 2 show ?thesis by blast
qed


section \<open>Statistics: percentiles, results and errors\<close>

lemma lerp_index_bounds:
  assumes s: "sorted a" and n: "a \<noteq> []" and h: "0 \<le> h" "h \<le> real (length a - 1)"
  shows "nat \<lfloor>h\<rfloor> \<le> length a - 1"
    and "a ! nat \<lfloor>h\<rfloor> \<le> lerp_index a h"
    and "lerp_index a h \<le> a ! min (nat \<lfloor>h\<rfloor> + 1) (length a - 1)"
proof -
  define lo where "lo = nat \<lfloor>h\<rfloor>"
  define hi where "hi = min (lo + 1) (length a - 1)"
  define g where "g = h - real lo"
  have lo_h: "real lo \<le> h" "h < real lo + 1"
    using h(1) by (simp_all add: lo_def)
  then have g: "0 \<le> g" "g \<le> 1" by (simp_all add: g_def)
  have "real lo \<le> real (length a - 1)" using lo_h(1) h(2) by linarith
  then show lo_le: "nat \<lfloor>h\<rfloor> \<le> length a - 1" unfolding lo_def by simp
  have len: "0 < length a" using n by simp
  have "hi \<le> length a - 1" by (simp add: hi_def)
  with len have hilt: "hi < length a" by linarith
  have lohi: "lo \<le> hi" "hi < length a"
    using lo_le hilt by (simp_all add: hi_def lo_def)
  have le: "a ! lo \<le> a ! hi"
    using s lohi by (simp add: sorted_iff_nth_mono)
  have eq: "lerp_index a h = a ! lo + (a ! hi - a ! lo) * g"
    by (simp add: lerp_index_def Let_def lo_def hi_def g_def)
  have "0 \<le> (a ! hi - a ! lo) * g" using le g(1) by simp
  then show "a ! nat \<lfloor>h\<rfloor> \<le> lerp_index a h"
    unfolding eq lo_def [symmetric] by simp
  have "(a ! hi - a ! lo) * g \<le> (a ! hi - a ! lo) * 1"
    using le g(2) by (intro mult_left_mono) simp_all
  then show "lerp_index a h \<le> a ! min (nat \<lfloor>h\<rfloor> + 1) (length a - 1)"
    unfolding eq lo_def [symmetric] hi_def [symmetric] by simp
qed

lemma lerp_index_mono:
  assumes s: "sorted a" and n: "a \<noteq> []"
    and h: "0 \<le> h" "h \<le> h'" "h' \<le> real (length a - 1)"
  shows "lerp_index a h \<le> lerp_index a h'"
proof -
  define lo where "lo = nat \<lfloor>h\<rfloor>"
  define lo' where "lo' = nat \<lfloor>h'\<rfloor>"
  have h0: "0 \<le> h'" "h \<le> real (length a - 1)" using h by linarith+
  have lole: "lo \<le> lo'"
    unfolding lo_def lo'_def using h(2) by (intro nat_mono floor_mono)
  have lo'_le: "lo' \<le> length a - 1"
    unfolding lo'_def by (rule lerp_index_bounds(1) [OF s n h0(1) h(3)])
  have len: "0 < length a" using n by simp
  show ?thesis
  proof (cases "lo = lo'")
    case True
    define hi where "hi = min (lo + 1) (length a - 1)"
    have "hi \<le> length a - 1" by (simp add: hi_def)
    with len have hilt: "hi < length a" by linarith
    have lohi: "lo \<le> hi" "hi < length a"
      using lo'_le True hilt by (simp_all add: hi_def)
    have le: "a ! lo \<le> a ! hi"
      using s lohi by (simp add: sorted_iff_nth_mono)
    have e: "lerp_index a h = a ! lo + (a ! hi - a ! lo) * (h - real lo)"
      by (simp add: lerp_index_def Let_def lo_def hi_def)
    have e': "lerp_index a h' = a ! lo + (a ! hi - a ! lo) * (h' - real lo)"
      using True by (simp add: lerp_index_def Let_def lo'_def hi_def)
    have "(a ! hi - a ! lo) * (h - real lo) \<le> (a ! hi - a ! lo) * (h' - real lo)"
      using le h(2) by (intro mult_left_mono) simp_all
    then show ?thesis unfolding e e' by simp
  next
    case False
    with lole have lt: "lo < lo'" by simp
    have "lerp_index a h \<le> a ! min (lo + 1) (length a - 1)"
      unfolding lo_def by (rule lerp_index_bounds(3) [OF s n h(1) h0(2)])
    also have "\<dots> \<le> a ! lo'"
      using s lt lo'_le len by (intro sorted_nth_mono) simp_all
    also have "\<dots> \<le> lerp_index a h'"
      unfolding lo'_def by (rule lerp_index_bounds(2) [OF s n h0(1) h(3)])
    finally show ?thesis .
  qed
qed

lemma np_median_lerp:
  assumes "data \<noteq> []"
  shows "np_median data = Fin (lerp_index (sort data) (real (length data - 1) * (50 / 100)))"
proof -
  define a where "a = sort data"
  define n where "n = length data"
  have la: "length a = n" by (simp add: a_def n_def)
  have n0: "0 < n" using assms by (simp add: n_def)
  show ?thesis
  proof (cases "odd n")
    case True
    then obtain m where m: "n = 2 * m + 1" by (auto elim: oddE)
    have h: "real (n - 1) * (50 / 100) = real m" by (simp add: m)
    have "lerp_index a (real m) = a ! m"
      by (simp add: lerp_index_def Let_def)
    moreover have "n div 2 = m" by (simp add: m)
    ultimately show ?thesis
      using True assms unfolding np_median_def a_def [symmetric] n_def [symmetric] la h
      by (simp add: Let_def la)
  next
    case False
    then obtain m where m: "n = 2 * m" by (auto elim: evenE)
    with n0 have m0: "0 < m" by simp
    then obtain k where k: "m = Suc k" by (cases m) auto
    have h: "real (n - 1) * (50 / 100) = real k + 1 / 2" by (simp add: m k)
    have fl: "\<lfloor>real k + 1 / 2\<rfloor> = int k" by linarith
    have hi: "min (Suc k) (n - Suc 0) = Suc k" by (simp add: m k)
    have "lerp_index a (real k + 1 / 2) = a ! k + (a ! Suc k - a ! k) * (1 / 2)"
      by (simp add: lerp_index_def Let_def fl la hi)
    also have "\<dots> = (a ! k + a ! Suc k) / 2" by (simp add: field_simps)
    finally have l: "lerp_index a (real k + 1 / 2) = (a ! k + a ! Suc k) / 2" .
    have d: "n div 2 = Suc k" "n div 2 - 1 = k" by (simp_all add: m k)
    show ?thesis
      using False assms unfolding np_median_def a_def [symmetric] n_def [symmetric] h l
      by (simp add: Let_def la d)
  qed
qed

lemma percentiles_ordered:
  assumes "data \<noteq> []"
  shows "\<exists>q25 med q75. np_percentile data 25 = Inr q25 \<and> np_median data = Fin med
      \<and> np_percentile data 75 = Inr q75 \<and> calculate_iqr data = Inr (q75 - q25)
      \<and> percentile_linear data 25 = q25 \<and> percentile_linear data 75 = q75
      \<and> q25 \<le> med \<and> med \<le> q75"
proof -
  define a where "a = sort data"
  define r where "r = real (length data - 1)"
  have la: "length a = length data" by (simp add: a_def)
  with assms have "a \<noteq> []" by (metis length_0_conv)
  with la have s: "sorted a" "a \<noteq> []" "length a = length data"
    by (simp_all add: a_def)
  have r0: "0 \<le> r" by (simp add: r_def)
  have l25: "percentile_linear data 25 = lerp_index a (r * (25 / 100))"
    by (simp add: percentile_linear_def a_def r_def)
  have l75: "percentile_linear data 75 = lerp_index a (r * (75 / 100))"
    by (simp add: percentile_linear_def a_def r_def)
  have p25: "np_percentile data 25 = Inr (lerp_index a (r * (25 / 100)))"
    using assms by (simp add: np_percentile_def l25)
  have p75: "np_percentile data 75 = Inr (lerp_index a (r * (75 / 100)))"
    using assms by (simp add: np_percentile_def l75)
  have med: "np_median data = Fin (lerp_index a (r * (50 / 100)))"
    unfolding a_def r_def by (rule np_median_lerp [OF assms])
  have iqr: "calculate_iqr data = Inr (lerp_index a (r * (75 / 100)) - lerp_index a (r * (25 / 100)))"
    by (simp add: calculate_iqr_def p25 p75)
  have ra: "real (length a - 1) = r" by (simp add: s(3) r_def)
  have top: "r * (75 / 100) \<le> real (length a - 1)"
    unfolding ra using r0 by simp
  have top50: "r * (50 / 100) \<le> real (length a - 1)"
    unfolding ra using r0 by simp
  have "lerp_index a (r * (25 / 100)) \<le> lerp_index a (r * (50 / 100))"
    using r0 by (intro lerp_index_mono [OF s(1,2) _ _ top50]) simp_all
  moreover have "lerp_index a (r * (50 / 100)) \<le> lerp_index a (r * (75 / 100))"
    using r0 by (intro lerp_index_mono [OF s(1,2) _ _ top]) simp_all
  ultimately show ?thesis
    using p25 p75 med iqr l25 l75 by blast
qed

lemma finite_values_Cons:
  "finite_values key (m # ms) =
     (case map_of m key of Some (Fin x) \<Rightarrow> [x] | _ \<Rightarrow> []) @ finite_values key ms"
  by (simp add: finite_values_def)

lemma collect_data_uniform:
  "\<forall>m \<in> set ms. key \<in> set (keys m) \<Longrightarrow> collect_data key ms = Inr (finite_values key ms)"
proof (induction ms)
  case Nil
  then show ?case by (simp add: finite_values_def)
next
  case (Cons m ms)
  from Cons.prems obtain v where v: "dict_get m key = Inr v" "map_of m key = Some v"
    using dict_get_in_keys [of key m] by auto
  from Cons.prems have "collect_data key ms = Inr (finite_values key ms)"
    using Cons.IH by simp
  with v show ?case
    by (cases v) (simp_all add: finite_values_Cons)
qed

lemma finite_values_all_nan:
  "\<forall>m \<in> set ms. map_of m key = Some NaN \<Longrightarrow> finite_values key ms = []"
  by (induction ms) (simp_all add: finite_values_def)

lemma key_statistics_empty: "key_statistics [] = Inl ValueError"
  by (simp add: key_statistics_def)

lemma key_statistics_summary: "data \<noteq> [] \<Longrightarrow> key_statistics data = Inr (summary data)"
proof (cases data)
  case Nil
  then show "data \<noteq> [] \<Longrightarrow> ?thesis" by simp
next
  case (Cons x xs)
  have "np_min data = Inr (Min (set data))" "np_max data = Inr (Max (set data))"
    by (simp_all add: Cons Min.set_eq_fold [symmetric] Max.set_eq_fold [symmetric])
  then show ?thesis
    using Cons
    by (simp add: key_statistics_def summary_def np_mean_def np_std_def calculate_iqr_def
        np_percentile_def Let_def)
qed

lemma dict_set_fresh: "k \<notin> set (keys d) \<Longrightarrow> dict_set d k v = d @ [(k, v)]"
  by (induction d) (auto simp: keys_def)

lemma statistics_loop_raises:
  "\<forall>k \<in> set ks. \<forall>m \<in> set ms. k \<in> set (keys m) \<Longrightarrow> \<exists>k \<in> set ks. finite_values k ms = []
   \<Longrightarrow> statistics_loop ks ms st = Inl ValueError"
proof (induction ks arbitrary: st)
  case Nil
  then show ?case by simp
next
  case (Cons key ks)
  from Cons.prems(1) have c: "collect_data key ms = Inr (finite_values key ms)"
    by (intro collect_data_uniform) simp
  show ?case
  proof (cases "finite_values key ms = []")
    case True
    with c show ?thesis by (simp add: key_statistics_empty)
  next
    case False
    with Cons.prems(2) have "\<exists>k \<in> set ks. finite_values k ms = []" by auto
    moreover from Cons.prems(1) have "\<forall>k \<in> set ks. \<forall>m \<in> set ms. k \<in> set (keys m)" by simp
    ultimately have "statistics_loop ks ms (dict_set st key (summary (finite_values key ms)))
        = Inl ValueError"
      using Cons.IH by blast
    with c False show ?thesis by (simp add: key_statistics_summary)
  qed
qed

lemma statistics_loop_result:
  "distinct ks \<Longrightarrow> set ks \<inter> set (keys st) = {}
   \<Longrightarrow> \<forall>k \<in> set ks. (\<forall>m \<in> set ms. k \<in> set (keys m)) \<and> finite_values k ms \<noteq> []
   \<Longrightarrow> statistics_loop ks ms st =
        Inr (st @ map (\<lambda>k. (k, summary (finite_values k ms))) ks)"
proof (induction ks arbitrary: st)
  case Nil
  then show ?case by simp
next
  case (Cons key ks)
  from Cons.prems(3) have c: "collect_data key ms = Inr (finite_values key ms)"
    by (intro collect_data_uniform) simp
  from Cons.prems(3) have ne: "finite_values key ms \<noteq> []" by simp
  from Cons.prems(2) have fresh: "key \<notin> set (keys st)" by simp
  define st1 where "st1 = st @ [(key, summary (finite_values key ms))]"
  have k1: "set (keys st1) = insert key (set (keys st))"
    by (auto simp: st1_def keys_def)
  have "statistics_loop ks ms st1 = Inr (st1 @ map (\<lambda>k. (k, summary (finite_values k ms))) ks)"
  proof (rule Cons.IH)
    show "distinct ks" using Cons.prems(1) by simp
    show "set ks \<inter> set (keys st1) = {}"
      using Cons.prems(1,2) k1 by auto
    show "\<forall>k \<in> set ks. (\<forall>m \<in> set ms. k \<in> set (keys m)) \<and> finite_values k ms \<noteq> []"
      using Cons.prems(3) by simp
  qed
  then show ?case
    using c ne fresh by (simp add: key_statistics_summary dict_set_fresh st1_def)
qed

lemma summary_two_equal:
  "summary [1 / 10, 1 / 10] =
     \<lparr>stat_min = Fin (1 / 10), stat_max = Fin (1 / 10), stat_mean = Fin (1 / 10),
      stat_median = Fin (1 / 10), stat_iqr = Fin 0, stat_stddev = Fin 0\<rparr>"
  by (simp add: summary_def np_median_def percentile_linear_def lerp_index_def Let_def)

text \<open>
  C4 (as amended). For a non-empty list of records that all have the keys of
  the first record, in which the values of some key of the first record are
  all not-a-number, \<open>statistics_margins\<close> fails with the \<open>ValueError\<close> that
  \<open>np.min\<close> raises on the empty list of values; the key is not skipped.
\<close>

theorem all_nan_key_raises_ValueError:
  assumes "\<forall>k \<in> set (keys first). \<forall>m \<in> set (first # rest). k \<in> set (keys m)"
    and "\<exists>k \<in> set (keys first). \<forall>m \<in> set (first # rest). map_of m k = Some NaN"
  shows "statistics_margins (first # rest) = Inl ValueError"
proof -
  from assms(2) have "\<exists>k \<in> set (keys first). finite_values k (first # rest) = []"
    using finite_values_all_nan [of "first # rest"] by blast
  from statistics_loop_raises [OF assms(1) this, of "[]"]
  show ?thesis by (simp add: statistics_margins_def)
qed

theorem all_nan_key_raises_ValueError_witness:
  "statistics_margins
     [[(''left'', Fin (1 / 10)), (''top'', NaN)], [(''left'', NaN), (''top'', NaN)]]
   = Inl ValueError"
  using all_nan_key_raises_ValueError
    [of "[(''left'', Fin (1 / 10)), (''top'', NaN)]" "[[(''left'', NaN), (''top'', NaN)]]"]
  by (simp add: keys_def)

text \<open>
  The records of a single page without text blocks: the call raises the
  library's error.
\<close>

theorem blank_page_statistics_counterexample:
  "statistics_margins
     [[(''left'', NaN), (''top'', NaN), (''right'', NaN), (''bottom'', NaN)]]
   = Inl ValueError"
  by (simp add: statistics_margins_def keys_def dict_get_def key_statistics_def)

text \<open>
  C9 (as amended). For a non-empty list of records that all have the keys of
  the first record, in which every key of the first record has at least one
  value that is a number, \<open>statistics_margins\<close> returns, for each key of the
  first record, the minimum, maximum, mean, median, interquartile range and
  standard deviation of exactly the values of that key that are numbers; the
  interquartile range is the 75th minus the 25th percentile under linear
  interpolation, and the 25th percentile, the median and the 75th percentile
  are in this order.
\<close>

theorem statistics_over_finite_values:
  assumes "distinct (keys first)"
    and "\<forall>k \<in> set (keys first). \<forall>m \<in> set (first # rest). k \<in> set (keys m)"
    and "\<forall>k \<in> set (keys first). finite_values k (first # rest) \<noteq> []"
  shows "\<exists>st. statistics_margins (first # rest) = Inr (Some st)
      \<and> st = map (\<lambda>k. (k, summary (finite_values k (first # rest)))) (keys first)
      \<and> (\<forall>k \<in> set (keys first). \<exists>q25 med q75.
            map_of st k = Some (summary (finite_values k (first # rest)))
          \<and> np_percentile (finite_values k (first # rest)) 25 = Inr q25
          \<and> np_median (finite_values k (first # rest)) = Fin med
          \<and> np_percentile (finite_values k (first # rest)) 75 = Inr q75
          \<and> stat_iqr (summary (finite_values k (first # rest))) = Fin (q75 - q25)
          \<and> q25 \<le> med \<and> med \<le> q75)"
proof -
  define st where "st = map (\<lambda>k. (k, summary (finite_values k (first # rest)))) (keys first)"
  have "statistics_loop (keys first) (first # rest) [] = Inr ([] @ st)"
    unfolding st_def
    by (rule statistics_loop_result) (use assms in \<open>simp_all add: keys_def\<close>)
  then have r: "statistics_margins (first # rest) = Inr (Some st)"
    by (simp add: statistics_margins_def)
  have each: "\<exists>q25 med q75.
            map_of st k = Some (summary (finite_values k (first # rest)))
          \<and> np_percentile (finite_values k (first # rest)) 25 = Inr q25
          \<and> np_median (finite_values k (first # rest)) = Fin med
          \<and> np_percentile (finite_values k (first # rest)) 75 = Inr q75
          \<and> stat_iqr (summary (finite_values k (first # rest))) = Fin (q75 - q25)
          \<and> q25 \<le> med \<and> med \<le> q75"
    if k: "k \<in> set (keys first)" for k
  proof -
    have m: "map_of st k = Some (summary (finite_values k (first # rest)))"
      unfolding st_def using k by (simp add: map_of_map_restrict)
    from assms(3) k have "finite_values k (first # rest) \<noteq> []" by blast
    from percentiles_ordered [OF this] obtain q25 med q75 where
      p: "np_percentile (finite_values k (first # rest)) 25 = Inr q25"
        "np_median (finite_values k (first # rest)) = Fin med"
        "np_percentile (finite_values k (first # rest)) 75 = Inr q75"
        "q25 \<le> med" "med \<le> q75"
      and l: "percentile_linear (finite_values k (first # rest)) 25 = q25"
        "percentile_linear (finite_values k (first # rest)) 75 = q75"
      by blast
    have "stat_iqr (summary (finite_values k (first # rest))) = Fin (q75 - q25)"
      by (simp add: summary_def l)
    with m p show ?thesis by blast
  qed
  from r each show ?thesis unfolding st_def [symmetric] by blast
qed

theorem statistics_over_finite_values_witness:
  "\<exists>st. statistics_margins
       [[(''left'', Fin (1 / 10)), (''top'', Fin (1 / 10))],
        [(''left'', NaN), (''top'', NaN)],
        [(''left'', Fin (1 / 10)), (''top'', Fin (1 / 10))],
        [(''left'', NaN), (''top'', NaN)]] = Inr (Some st)
     \<and> map_of st ''left'' =
         Some \<lparr>stat_min = Fin (1 / 10), stat_max = Fin (1 / 10), stat_mean = Fin (1 / 10),
               stat_median = Fin (1 / 10), stat_iqr = Fin 0, stat_stddev = Fin 0\<rparr>"
proof -
  define first where "first = [(''left'', Fin (1 / 10)), (''top'', Fin (1 / 10))]"
  define rest where "rest =
       [[(''left'', NaN), (''top'', NaN)],
        [(''left'', Fin (1 / 10)), (''top'', Fin (1 / 10))],
        [(''left'', NaN), (''top'', NaN)]]"
  have k: "keys first = [''left'', ''top'']" by (simp add: first_def keys_def)
  have fv: "finite_values ''left'' (first # rest) = [1 / 10, 1 / 10]"
    "finite_values ''top'' (first # rest) = [1 / 10, 1 / 10]"
    by (simp_all add: first_def rest_def finite_values_def)
  have a: "distinct (keys first)" by (simp add: k)
  have b: "\<forall>k \<in> set (keys first). \<forall>m \<in> set (first # rest). k \<in> set (keys m)"
    unfolding k by (simp add: first_def rest_def keys_def)
  have c: "\<forall>k \<in> set (keys first). finite_values k (first # rest) \<noteq> []"
    unfolding k by (simp add: fv)
  from statistics_over_finite_values [OF a b c]
  obtain st where st: "statistics_margins (first # rest) = Inr (Some st)"
    "st = map (\<lambda>k. (k, summary (finite_values k (first # rest)))) (keys first)"
    by blast
  have "map_of st ''left'' = Some (summary [1 / 10, 1 / 10])"
    unfolding st(2) k by (simp add: fv)
  with st(1) show ?thesis
    unfolding first_def rest_def summary_two_equal by blast
qed

text \<open>
  When a key has no value that is a number no statistics are returned, also
  when another key has some.
\<close>

theorem nan_column_statistics_counterexample:
  "statistics_margins
     [[(''left'', Fin (1 / 10)), (''top'', NaN)], [(''left'', Fin (1 / 5)), (''top'', NaN)]]
   = Inl ValueError"
  by (simp add: statistics_margins_def keys_def dict_get_def key_statistics_def
      calculate_iqr_def np_percentile_def)

end
